theory Spec2Isabelle
  imports Main "HOL-Library.Word"
begin

section \<open>Machine values, the output stream and pointers\<close>

text \<open>
  The C++ type \<^verbatim>\<open>int\<close> is a 32-bit two's-complement word; comparisons of
  \<^verbatim>\<open>int\<close> values are signed (\<open><s\<close>, \<open>\<le>s\<close>).  An output stream
  \<^verbatim>\<open>std::ostream&\<close> is the text written to it so far; \<^verbatim>\<open>out << s\<close> appends.
\<close>

type_synonym cint = "32 word"
type_synonym ostream = string

text \<open>
  A raw pointer is either \<^verbatim>\<open>nullptr\<close> or an address.  A heap maps the addresses
  of the live objects of one class to their values.  Dereferencing a null pointer or an
  address with no live object is undefined behaviour in C++; the model returns a fault.
\<close>

datatype ptr = Null | Addr nat

datatype fault = NullDereference | InvalidPointer

type_synonym 'a heap = "nat \<Rightarrow> 'a option"

definition deref :: "'a heap \<Rightarrow> ptr \<Rightarrow> fault + 'a" where
  "deref H p =
     (case p of
        Null \<Rightarrow> Inl NullDereference
      | Addr a \<Rightarrow> (case H a of None \<Rightarrow> Inl InvalidPointer | Some v \<Rightarrow> Inr v))"

text \<open>
  Modelled from the spec: the token classes \<^verbatim>\<open>IDToken\<close>, \<^verbatim>\<open>IntLitToken\<close> and
  \<^verbatim>\<open>StringLitToken\<close> are declared outside \<^verbatim>\<open>ast.hpp\<close>, which only uses them.
  The spec describes a token carrier as holding an identifier string, an integer value or
  a string literal; \<^verbatim>\<open>value()\<close> reads it.  The lexer owns the token objects, so they
  live in heaps of their own.
\<close>

record lexer_heap =
  idTokens :: "string heap"
  intLitTokens :: "cint heap"
  strLitTokens :: "string heap"

section \<open>The node classes of ast.hpp\<close>

text \<open>
  Each concrete class is a constructor holding the private members of the class.  A child
  pointer that a node owns is modelled by the child itself (a strict, finite tree without
  null children: the well-formed trees the parser hands over).  Pointers to token objects
  and to the parser's working lists stay pointers, because what the nodes do with them is
  what the properties below are about.  A subclass used where its base class is expected
  is embedded by a constructor of the base (\<open>IdExp\<close>, \<open>AssignExp\<close>, \<open>FormalDecl\<close>).
\<close>

datatype IdNode = IdNode (myStrVal: string)

datatype TypeNode = IntNode | BoolNode | VoidNode | StructNode IdNode

datatype ExpNode =
    IntLitNode (myIntLit: ptr)
  | StrLitNode (myStringLit: ptr)
  | TrueNode
  | IdExp IdNode
  | DotAccessNode ExpNode IdNode
  | AssignExp AssignNode
and AssignNode = AssignNode ExpNode ExpNode

datatype ExpListNode = ExpListNode (myExpList: "ExpNode list")

datatype FormalDeclNode = FormalDeclNode TypeNode IdNode

datatype FormalsListNode = FormalsListNode (myFormalDeclList: "FormalDeclNode list")

datatype StmtNode = AssignStmtNode AssignNode

datatype StmtListNode = StmtListNode (myStmtList: "StmtNode list")

datatype DeclNode =
    VarDeclNode TypeNode IdNode cint
  | FnDeclNode TypeNode IdNode FormalsListNode FnBodyNode
  | FormalDecl FormalDeclNode
  | StructDeclNode IdNode DeclListNode
and DeclListNode = DeclListNode (myDecls: "DeclNode list")
and FnBodyNode = FnBodyNode DeclListNode StmtListNode

datatype ProgramNode = ProgramNode DeclListNode

text \<open>\<^verbatim>\<open>static const int NOT_STRUCT = -1;\<close>\<close>

definition NOT_STRUCT :: cint where
  "NOT_STRUCT = - 1"

subsection \<open>Constructors that read through a pointer\<close>

text \<open>
  \<^verbatim>\<open>IdNode(IDToken * token)\<close> executes \<^verbatim>\<open>myStrVal = token->value();\<close>:
  it reads the token once and stores the string.
\<close>

definition new_IdNode :: "lexer_heap \<Rightarrow> ptr \<Rightarrow> fault + IdNode" where
  "new_IdNode L token =
     (case deref (idTokens L) token of Inl f \<Rightarrow> Inl f | Inr s \<Rightarrow> Inr (IdNode s))"

text \<open>
  \<^verbatim>\<open>IntLitNode(IntLitToken * intLit)\<close> executes \<^verbatim>\<open>myIntLit = intLit;\<close> and
  \<^verbatim>\<open>StrLitNode(StringLitToken * stringLit)\<close> executes
  \<^verbatim>\<open>myStringLit = stringLit;\<close>: the pointer is stored, the token is not read.
\<close>

definition new_IntLitNode :: "ptr \<Rightarrow> ExpNode" where
  "new_IntLitNode intLit = IntLitNode intLit"

definition new_StrLitNode :: "ptr \<Rightarrow> ExpNode" where
  "new_StrLitNode stringLit = StrLitNode stringLit"

text \<open>
  \<^verbatim>\<open>DeclListNode(std::list<DeclNode *> * decls)\<close> executes \<^verbatim>\<open>myDecls = *decls;\<close>,
  and likewise \<^verbatim>\<open>FormalsListNode\<close> and \<^verbatim>\<open>StmtListNode\<close>: the pointer is
  dereferenced and the list assigned by value to the member.
  \<^verbatim>\<open>ExpListNode(std::list<ExpNode *> expList)\<close> receives the list by value.
\<close>

definition new_DeclListNode :: "DeclNode list heap \<Rightarrow> ptr \<Rightarrow> fault + DeclListNode" where
  "new_DeclListNode H decls =
     (case deref H decls of Inl f \<Rightarrow> Inl f | Inr ds \<Rightarrow> Inr (DeclListNode ds))"

definition new_FormalsListNode ::
  "FormalDeclNode list heap \<Rightarrow> ptr \<Rightarrow> fault + FormalsListNode" where
  "new_FormalsListNode H formalDeclList =
     (case deref H formalDeclList of Inl f \<Rightarrow> Inl f | Inr fs \<Rightarrow> Inr (FormalsListNode fs))"

definition new_StmtListNode :: "StmtNode list heap \<Rightarrow> ptr \<Rightarrow> fault + StmtListNode" where
  "new_StmtListNode H stmtList =
     (case deref H stmtList of Inl f \<Rightarrow> Inl f | Inr ss \<Rightarrow> Inr (StmtListNode ss))"

definition new_ExpListNode :: "ExpNode list \<Rightarrow> ExpListNode" where
  "new_ExpListNode expList = ExpListNode expList"

text \<open>
  The parser's later mutation of a working list: \<^verbatim>\<open>lst->push_back(x)\<close> on the list
  object at address \<open>a\<close>.
\<close>

definition push_back :: "'a list heap \<Rightarrow> nat \<Rightarrow> 'a \<Rightarrow> 'a list heap" where
  "push_back H a x = (case H a of None \<Rightarrow> H | Some xs \<Rightarrow> H(a \<mapsto> xs @ [x]))"

subsection \<open>The indentation helper\<close>

text \<open>
  \<^verbatim>\<open>for (int k = 0 ; k < indent; k++){ out << " "; }\<close>
  The loop counter is a 32-bit \<^verbatim>\<open>int\<close>; the recursion below is the loop from the
  state \<open>(out, k)\<close>.
\<close>

function doIndent_loop :: "ostream \<Rightarrow> cint \<Rightarrow> cint \<Rightarrow> ostream" where
  "doIndent_loop out k indent =
     (if k <s indent then doIndent_loop (out @ '' '') (k + 1) indent else out)"
  by pat_completeness auto
termination
proof (relation "measure (\<lambda>(out, k, indent). nat (sint indent - sint k))")
  show "wf (measure (\<lambda>(out, k, indent). nat (sint indent - sint k)))" by simp
next
  fix out :: ostream and k indent :: cint
  assume less: "k <s indent"
  then have lt: "sint k < sint indent" by (simp add: word_sless_alt)
  have ub: "sint indent < 2 ^ 31" using sint_lt [of indent] by simp
  have lb: "- (2 ^ 31) \<le> sint k" using sint_ge [of k] by simp
  have "sint (k + 1) = signed_take_bit 31 (sint k + 1)"
    by (simp add: sint_word_ariths)
  also have "\<dots> = sint k + 1"
    using lt ub lb by (intro signed_take_bit_int_eq_self) auto
  finally have "sint (k + 1) = sint k + 1" .
  with lt show "((out @ '' '', k + 1, indent), (out, k, indent))
      \<in> measure (\<lambda>(out, k, indent). nat (sint indent - sint k))"
    by simp
qed

declare doIndent_loop.simps [simp del]

definition doIndent :: "ostream \<Rightarrow> cint \<Rightarrow> ostream" where
  "doIndent out indent = doIndent_loop out 0 indent"

section \<open>The class table of ast.hpp\<close>

text \<open>
  The header comment of \<^verbatim>\<open>ast.hpp\<close> (lines 35 to 72) lists the kinds of statement
  and expression nodes with the children of each: \<open>kind_table\<close> is that list, in its
  order (the abstract \<^verbatim>\<open>UnaryExpNode\<close> and \<^verbatim>\<open>BinaryExpNode\<close> give their
  children to the operator kinds listed below them).
\<close>

definition kind_table :: "(string \<times> string list) list" where
  "kind_table =
     [(''AssignStmtNode'', [''AssignNode'']),
      (''PostIncStmtNode'', [''ExpNode'']),
      (''PostDecStmtNode'', [''ExpNode'']),
      (''ReadStmtNode'', [''ExpNode'']),
      (''WriteStmtNode'', [''ExpNode'']),
      (''IfStmtNode'', [''ExpNode'', ''DeclListNode'', ''StmtListNode'']),
      (''IfElseStmtNode'',
         [''ExpNode'', ''DeclListNode'', ''StmtListNode'', ''DeclListNode'', ''StmtListNode'']),
      (''WhileStmtNode'', [''ExpNode'', ''DeclListNode'', ''StmtListNode'']),
      (''CallStmtNode'', [''CallExpNode'']),
      (''ReturnStmtNode'', [''ExpNode'']),
      (''IntLitNode'', []),
      (''StrLitNode'', []),
      (''TrueNode'', []),
      (''FalseNode'', []),
      (''IdNode'', []),
      (''DotAccessNode'', [''ExpNode'', ''IdNode'']),
      (''AssignNode'', [''ExpNode'', ''ExpNode'']),
      (''CallExpNode'', [''IdNode'', ''ExpListNode'']),
      (''UnaryMinusNode'', [''ExpNode'']),
      (''NotNode'', [''ExpNode'']),
      (''PlusNode'', [''ExpNode'', ''ExpNode'']),
      (''MinusNode'', [''ExpNode'', ''ExpNode'']),
      (''TimesNode'', [''ExpNode'', ''ExpNode'']),
      (''DivideNode'', [''ExpNode'', ''ExpNode'']),
      (''AndNode'', [''ExpNode'', ''ExpNode'']),
      (''OrNode'', [''ExpNode'', ''ExpNode'']),
      (''EqualsNode'', [''ExpNode'', ''ExpNode'']),
      (''NotEqualsNode'', [''ExpNode'', ''ExpNode'']),
      (''LessNode'', [''ExpNode'', ''ExpNode'']),
      (''GreaterNode'', [''ExpNode'', ''ExpNode'']),
      (''LessEqNode'', [''ExpNode'', ''ExpNode'']),
      (''GreaterEqNode'', [''ExpNode'', ''ExpNode''])]"

text \<open>
  The concrete classes that \<^verbatim>\<open>ast.hpp\<close> defines (a class body with a constructor),
  in the order of the file, each with the parameter types of its constructor.  The
  classes named only in a forward declaration (\<^verbatim>\<open>class CallExpNode;\<close>) have no entry.
\<close>

definition class_defs :: "(string \<times> string list) list" where
  "class_defs =
     [(''ProgramNode'', [''DeclListNode'']),
      (''ExpListNode'', [''list<ExpNode>'']),
      (''DeclListNode'', [''list<DeclNode>'']),
      (''VarDeclNode'', [''TypeNode'', ''IdNode'', ''int'']),
      (''IdNode'', [''IDToken'']),
      (''IntNode'', []),
      (''BoolNode'', []),
      (''VoidNode'', []),
      (''StructDeclNode'', [''IdNode'', ''DeclListNode'']),
      (''StructNode'', [''IdNode'']),
      (''FnDeclNode'', [''TypeNode'', ''IdNode'', ''FormalsListNode'', ''FnBodyNode'']),
      (''FormalDeclNode'', [''TypeNode'', ''IdNode'']),
      (''FormalsListNode'', [''list<FormalDeclNode>'']),
      (''FnBodyNode'', [''DeclListNode'', ''StmtListNode'']),
      (''StmtListNode'', [''list<StmtNode>'']),
      (''AssignStmtNode'', [''AssignNode'']),
      (''AssignNode'', [''ExpNode'', ''ExpNode'']),
      (''DotAccessNode'', [''ExpNode'', ''IdNode'']),
      (''IntLitNode'', [''IntLitToken'']),
      (''StrLitNode'', [''StringLitToken'']),
      (''TrueNode'', [])]"

text \<open>The children of a defined class: its constructor parameters that are not tokens.\<close>

definition is_token :: "string \<Rightarrow> bool" where
  "is_token c = List.member [''IDToken'', ''IntLitToken'', ''StringLitToken''] c"

definition children_of :: "string \<Rightarrow> string list option" where
  "children_of c =
     (case map_of class_defs c of
        None \<Rightarrow> None
      | Some ps \<Rightarrow> Some (filter (\<lambda>p. \<not> is_token p) ps))"

definition kinds_without_class :: "string list" where
  "kinds_without_class = map fst (filter (\<lambda>(k, cs). children_of k = None) kind_table)"

definition kinds_with_class :: "string list" where
  "kinds_with_class = map fst (filter (\<lambda>(k, cs). children_of k = Some cs) kind_table)"

section \<open>Unparsing\<close>

text \<open>
  Modelled from the spec: the spellings of the keywords, operators and delimiters that
  the unparse methods write.  \<^verbatim>\<open>ast.hpp\<close> declares the \<^verbatim>\<open>unparse\<close> methods and
  holds none of their bodies, and the spec leaves the token spellings open as a design
  parameter fixed once; they are a parameter \<open>X\<close> of every function below.
\<close>

datatype lexeme =
    KwInt | KwBool | KwVoid | KwStruct | KwTrue
  | OpAssign | OpDot | Comma | Space | LParen | RParen
  | LCurly | RCurly | LBracket | RBracket | Semicolon | Newline

type_synonym lexemes = "lexeme \<Rightarrow> string"

text \<open>
  Modelled from the spec: \<^verbatim>\<open>out << v\<close> for an \<^verbatim>\<open>int\<close> writes the decimal numeral
  of the value, with a minus sign when it is negative; this is how an integer literal
  and a size are written "verbatim".
\<close>

definition digit :: "nat \<Rightarrow> char" where
  "digit d = ''0123456789'' ! d"

function decimal :: "nat \<Rightarrow> string" where
  "decimal n = (if n < 10 then [digit n] else decimal (n div 10) @ [digit (n mod 10)])"
  by pat_completeness auto
termination
  by (relation "measure id") auto

declare decimal.simps [simp del]

definition show_cint :: "cint \<Rightarrow> string" where
  "show_cint v =
     (if sint v < 0 then CHR ''-'' # decimal (nat (- sint v)) else decimal (nat (sint v)))"

text \<open>Sequencing of two writes to the stream: a fault of the first ends the rendering.\<close>

definition and_then ::
  "fault + ostream \<Rightarrow> (ostream \<Rightarrow> fault + ostream) \<Rightarrow> fault + ostream" where
  "and_then r f = (case r of Inl e \<Rightarrow> Inl e | Inr out \<Rightarrow> f out)"

text \<open>
  Modelled from the spec: \<^verbatim>\<open>IdNode::unparse\<close> (body not in \<^verbatim>\<open>ast.hpp\<close>).  A leaf
  renders itself directly: the identifier writes the string it stored.
\<close>

fun unparse_IdNode :: "IdNode \<Rightarrow> ostream \<Rightarrow> cint \<Rightarrow> ostream" where
  "unparse_IdNode (IdNode s) out indent = out @ s"

text \<open>
  Modelled from the spec: the \<^verbatim>\<open>unparse\<close> bodies of the four type nodes (not in
  \<^verbatim>\<open>ast.hpp\<close>).  A struct reference writes the keyword and the struct's name.
\<close>

fun unparse_TypeNode :: "lexemes \<Rightarrow> TypeNode \<Rightarrow> ostream \<Rightarrow> cint \<Rightarrow> ostream" where
  "unparse_TypeNode X IntNode out indent = out @ X KwInt"
| "unparse_TypeNode X BoolNode out indent = out @ X KwBool"
| "unparse_TypeNode X VoidNode out indent = out @ X KwVoid"
| "unparse_TypeNode X (StructNode i) out indent =
     unparse_IdNode i (out @ X KwStruct @ X Space) 0"

text \<open>
  Modelled from the spec: the \<^verbatim>\<open>unparse\<close> bodies of the expression nodes (not in
  \<^verbatim>\<open>ast.hpp\<close>).  Expressions are written without indentation.  A literal node holds
  only the pointer to its token, so writing the literal reads the token through that
  pointer at the time of rendering.  A field access writes the base expression, the
  field-access token and the member.  An assignment used as an expression is written in
  parentheses (full parenthesisation).
\<close>

fun unparse_ExpNode ::
    "lexemes \<Rightarrow> lexer_heap \<Rightarrow> ExpNode \<Rightarrow> ostream \<Rightarrow> cint \<Rightarrow> fault + ostream"
  and unparse_AssignNode ::
    "lexemes \<Rightarrow> lexer_heap \<Rightarrow> AssignNode \<Rightarrow> ostream \<Rightarrow> cint \<Rightarrow> fault + ostream"
where
  "unparse_ExpNode X L (IntLitNode p) out indent =
     (case deref (intLitTokens L) p of Inl f \<Rightarrow> Inl f | Inr v \<Rightarrow> Inr (out @ show_cint v))"
| "unparse_ExpNode X L (StrLitNode p) out indent =
     (case deref (strLitTokens L) p of Inl f \<Rightarrow> Inl f | Inr s \<Rightarrow> Inr (out @ s))"
| "unparse_ExpNode X L TrueNode out indent = Inr (out @ X KwTrue)"
| "unparse_ExpNode X L (IdExp i) out indent = Inr (unparse_IdNode i out 0)"
| "unparse_ExpNode X L (DotAccessNode e i) out indent =
     and_then (unparse_ExpNode X L e out 0) (\<lambda>o1.
     Inr (unparse_IdNode i (o1 @ X OpDot) 0))"
| "unparse_ExpNode X L (AssignExp a) out indent =
     and_then (unparse_AssignNode X L a (out @ X LParen) 0) (\<lambda>o1.
     Inr (o1 @ X RParen))"
| "unparse_AssignNode X L (AssignNode lhs rhs) out indent =
     and_then (unparse_ExpNode X L lhs out 0) (\<lambda>o1.
     unparse_ExpNode X L rhs (o1 @ X OpAssign) 0)"

text \<open>
  Modelled from the spec: \<^verbatim>\<open>ExpListNode::unparse\<close> (body not in \<^verbatim>\<open>ast.hpp\<close>).
  A sequence node does not indent itself, forwards the level to each child, and separates
  expressions by commas, inline.
\<close>

fun unparse_exps ::
  "lexemes \<Rightarrow> lexer_heap \<Rightarrow> ExpNode list \<Rightarrow> ostream \<Rightarrow> cint \<Rightarrow> fault + ostream" where
  "unparse_exps X L [] out indent = Inr out"
| "unparse_exps X L [e] out indent = unparse_ExpNode X L e out indent"
| "unparse_exps X L (e # es) out indent =
     and_then (unparse_ExpNode X L e out indent) (\<lambda>o1.
     unparse_exps X L es (o1 @ X Comma) indent)"

fun unparse_ExpListNode ::
  "lexemes \<Rightarrow> lexer_heap \<Rightarrow> ExpListNode \<Rightarrow> ostream \<Rightarrow> cint \<Rightarrow> fault + ostream" where
  "unparse_ExpListNode X L (ExpListNode es) out indent = unparse_exps X L es out indent"

text \<open>
  Modelled from the spec: \<^verbatim>\<open>FormalDeclNode::unparse\<close> and
  \<^verbatim>\<open>FormalsListNode::unparse\<close> (bodies not in \<^verbatim>\<open>ast.hpp\<close>).  A formal is its type
  and its identifier; formals are separated by commas, inline.
\<close>

fun unparse_FormalDeclNode ::
  "lexemes \<Rightarrow> FormalDeclNode \<Rightarrow> ostream \<Rightarrow> cint \<Rightarrow> ostream" where
  "unparse_FormalDeclNode X (FormalDeclNode t i) out indent =
     unparse_IdNode i (unparse_TypeNode X t out 0 @ X Space) 0"

fun unparse_formals ::
  "lexemes \<Rightarrow> FormalDeclNode list \<Rightarrow> ostream \<Rightarrow> cint \<Rightarrow> ostream" where
  "unparse_formals X [] out indent = out"
| "unparse_formals X [f] out indent = unparse_FormalDeclNode X f out indent"
| "unparse_formals X (f # fs) out indent =
     unparse_formals X fs (unparse_FormalDeclNode X f out indent @ X Comma) indent"

fun unparse_FormalsListNode ::
  "lexemes \<Rightarrow> FormalsListNode \<Rightarrow> ostream \<Rightarrow> cint \<Rightarrow> ostream" where
  "unparse_FormalsListNode X (FormalsListNode fs) out indent = unparse_formals X fs out indent"

text \<open>
  Modelled from the spec: \<^verbatim>\<open>AssignStmtNode::unparse\<close> and
  \<^verbatim>\<open>StmtListNode::unparse\<close> (bodies not in \<^verbatim>\<open>ast.hpp\<close>).  A statement begins a
  line: it writes the indentation with \<open>doIndent\<close>, its content, the statement
  terminator and a newline.  The list renders each statement in order at its own level.
\<close>

fun unparse_StmtNode ::
  "lexemes \<Rightarrow> lexer_heap \<Rightarrow> StmtNode \<Rightarrow> ostream \<Rightarrow> cint \<Rightarrow> fault + ostream" where
  "unparse_StmtNode X L (AssignStmtNode a) out indent =
     and_then (unparse_AssignNode X L a (doIndent out indent) 0) (\<lambda>o1.
     Inr (o1 @ X Semicolon @ X Newline))"

fun unparse_stmts ::
  "lexemes \<Rightarrow> lexer_heap \<Rightarrow> StmtNode list \<Rightarrow> ostream \<Rightarrow> cint \<Rightarrow> fault + ostream" where
  "unparse_stmts X L [] out indent = Inr out"
| "unparse_stmts X L (s # ss) out indent =
     and_then (unparse_StmtNode X L s out indent) (\<lambda>o1.
     unparse_stmts X L ss o1 indent)"

fun unparse_StmtListNode ::
  "lexemes \<Rightarrow> lexer_heap \<Rightarrow> StmtListNode \<Rightarrow> ostream \<Rightarrow> cint \<Rightarrow> fault + ostream" where
  "unparse_StmtListNode X L (StmtListNode ss) out indent = unparse_stmts X L ss out indent"

text \<open>
  Modelled from the spec: the \<^verbatim>\<open>unparse\<close> bodies of the declaration nodes, of
  \<^verbatim>\<open>DeclListNode\<close> and of \<^verbatim>\<open>FnBodyNode\<close> (not in \<^verbatim>\<open>ast.hpp\<close>).  A variable
  declaration writes the indentation, the type, the identifier, a size suffix only when
  the stored size is not \<open>NOT_STRUCT\<close>, the terminator and a newline.  A struct
  declaration writes its header, its members one level deeper and its closing at its own
  level; a function declaration writes its header with the formals, its body one level
  deeper and its closing.  The lists render each member in order at the level they got.
\<close>

function unparse_DeclNode ::
    "lexemes \<Rightarrow> lexer_heap \<Rightarrow> DeclNode \<Rightarrow> ostream \<Rightarrow> cint \<Rightarrow> fault + ostream"
  and unparse_decls ::
    "lexemes \<Rightarrow> lexer_heap \<Rightarrow> DeclNode list \<Rightarrow> ostream \<Rightarrow> cint \<Rightarrow> fault + ostream"
  and unparse_DeclListNode ::
    "lexemes \<Rightarrow> lexer_heap \<Rightarrow> DeclListNode \<Rightarrow> ostream \<Rightarrow> cint \<Rightarrow> fault + ostream"
  and unparse_FnBodyNode ::
    "lexemes \<Rightarrow> lexer_heap \<Rightarrow> FnBodyNode \<Rightarrow> ostream \<Rightarrow> cint \<Rightarrow> fault + ostream"
where
  "unparse_DeclNode X L (VarDeclNode t i mySize) out indent =
     (let o1 = doIndent out indent;
          o2 = unparse_TypeNode X t o1 0;
          o3 = unparse_IdNode i (o2 @ X Space) 0;
          o4 = (if mySize = NOT_STRUCT then o3
                else o3 @ X LBracket @ show_cint mySize @ X RBracket)
      in Inr (o4 @ X Semicolon @ X Newline))"
| "unparse_DeclNode X L (FnDeclNode t i formals body) out indent =
     (let o1 = doIndent out indent;
          o2 = unparse_TypeNode X t o1 0;
          o3 = unparse_IdNode i (o2 @ X Space) 0;
          o4 = unparse_FormalsListNode X formals (o3 @ X LParen) 0
      in and_then
           (unparse_FnBodyNode X L body (o4 @ X RParen @ X LCurly @ X Newline) (indent + 1))
           (\<lambda>o5. Inr (doIndent o5 indent @ X RCurly @ X Newline)))"
| "unparse_DeclNode X L (FormalDecl f) out indent =
     Inr (unparse_FormalDeclNode X f out indent)"
| "unparse_DeclNode X L (StructDeclNode i ds) out indent =
     (let o1 = doIndent out indent;
          o2 = unparse_IdNode i (o1 @ X KwStruct @ X Space) 0
      in and_then
           (unparse_DeclListNode X L ds (o2 @ X LCurly @ X Newline) (indent + 1))
           (\<lambda>o3. Inr (doIndent o3 indent @ X RCurly @ X Semicolon @ X Newline)))"
| "unparse_decls X L [] out indent = Inr out"
| "unparse_decls X L (d # ds) out indent =
     and_then (unparse_DeclNode X L d out indent) (\<lambda>o1.
     unparse_decls X L ds o1 indent)"
| "unparse_DeclListNode X L (DeclListNode ds) out indent = unparse_decls X L ds out indent"
| "unparse_FnBodyNode X L (FnBodyNode ds ss) out indent =
     and_then (unparse_DeclListNode X L ds out indent) (\<lambda>o1.
     unparse_StmtListNode X L ss o1 indent)"
  by pat_completeness auto
termination
  by (relation "measure (case_sum
        (case_sum (\<lambda>(X, L, d, out, indent). size d)
                  (\<lambda>(X, L, ds, out, indent). size_list size ds))
        (case_sum (\<lambda>(X, L, dl, out, indent). size dl)
                  (\<lambda>(X, L, b, out, indent). size b)))") auto

text \<open>
  Modelled from the spec: \<^verbatim>\<open>ProgramNode::unparse\<close> (body not in \<^verbatim>\<open>ast.hpp\<close>), the
  entry point: it renders the declaration list at the starting level.
\<close>

fun unparse_ProgramNode ::
  "lexemes \<Rightarrow> lexer_heap \<Rightarrow> ProgramNode \<Rightarrow> ostream \<Rightarrow> cint \<Rightarrow> fault + ostream" where
  "unparse_ProgramNode X L (ProgramNode ds) out indent = unparse_DeclListNode X L ds out indent"

section \<open>Object graphs\<close>

text \<open>
  The objects as the constructors of \<^verbatim>\<open>ast.hpp\<close> lay them out: one constructor per
  concrete class, holding its members, where a child is the raw pointer the class
  declares (\<^verbatim>\<open>DeclListNode * myDeclList\<close>, \<^verbatim>\<open>std::list<DeclNode *> myDecls\<close>, ...)
  and a literal holds the pointer to its token.  An object heap may hold null or dangling
  child pointers and cycles; nothing in the types excludes them.
\<close>

datatype object =
    ProgramObj ptr
  | ExpListObj "ptr list"
  | DeclListObj "ptr list"
  | VarDeclObj ptr ptr cint
  | IdObj string
  | IntObj
  | BoolObj
  | VoidObj
  | StructDeclObj ptr ptr
  | StructObj ptr
  | FnDeclObj ptr ptr ptr ptr
  | FormalDeclObj ptr ptr
  | FormalsListObj "ptr list"
  | FnBodyObj ptr ptr
  | StmtListObj "ptr list"
  | AssignStmtObj ptr
  | AssignObj ptr ptr
  | DotAccessObj ptr ptr
  | IntLitObj ptr
  | StrLitObj ptr
  | TrueObj

text \<open>
  The outcome of a rendering that is given a bound on the depth of calls: \<open>None\<close> when
  the bound is reached before the rendering returns, a fault, or the stream.
\<close>

type_synonym outcome = "(fault + ostream) option"

type_synonym dispatch = "ptr \<Rightarrow> ostream \<Rightarrow> cint \<Rightarrow> outcome"

definition then_do :: "outcome \<Rightarrow> (ostream \<Rightarrow> outcome) \<Rightarrow> outcome" where
  "then_do r f =
     (case r of None \<Rightarrow> None | Some (Inl e) \<Rightarrow> Some (Inl e) | Some (Inr out) \<Rightarrow> f out)"

definition written :: "ostream \<Rightarrow> outcome" where
  "written out = Some (Inr out)"

text \<open>
  Modelled from the spec: how a list node renders its members (bodies not in
  \<^verbatim>\<open>ast.hpp\<close>): each in order through its pointer, at the level of the list, with the
  separator of the family between two members.
\<close>

fun sequence :: "dispatch \<Rightarrow> string \<Rightarrow> ptr list \<Rightarrow> ostream \<Rightarrow> cint \<Rightarrow> outcome" where
  "sequence self sep [] out indent = written out"
| "sequence self sep [p] out indent = self p out indent"
| "sequence self sep (p # ps) out indent =
     then_do (self p out indent) (\<lambda>o1. sequence self sep ps (o1 @ sep) indent)"

text \<open>
  Modelled from the spec: the text of an assignment without parentheses, as a statement
  writes it: left side, assignment token, right side.
\<close>

definition bare_assign :: "dispatch \<Rightarrow> lexemes \<Rightarrow> ptr \<Rightarrow> ptr \<Rightarrow> ostream \<Rightarrow> outcome" where
  "bare_assign self X lhs rhs out =
     then_do (self lhs out 0) (\<lambda>o1. self rhs (o1 @ X OpAssign) 0)"

text \<open>
  Modelled from the spec: the \<^verbatim>\<open>unparse\<close> method of each class (bodies not in
  \<^verbatim>\<open>ast.hpp\<close>), with the same rules as the functions on trees above, run on an
  object: the method reads the members of its object and renders each child by the
  virtual call \<^verbatim>\<open>child->unparse(out, indent)\<close>, which is \<open>self child out indent\<close>.
\<close>

fun unparse_object ::
  "dispatch \<Rightarrow> lexemes \<Rightarrow> lexer_heap \<Rightarrow> object heap \<Rightarrow> object \<Rightarrow> ostream \<Rightarrow> cint \<Rightarrow> outcome"
where
  "unparse_object self X L H (ProgramObj dl) out indent = self dl out indent"
| "unparse_object self X L H (ExpListObj ps) out indent = sequence self (X Comma) ps out indent"
| "unparse_object self X L H (DeclListObj ps) out indent = sequence self [] ps out indent"
| "unparse_object self X L H (VarDeclObj t i mySize) out indent =
     then_do (self t (doIndent out indent) 0) (\<lambda>o2.
     then_do (self i (o2 @ X Space) 0) (\<lambda>o3.
     written ((if mySize = NOT_STRUCT then o3
             else o3 @ X LBracket @ show_cint mySize @ X RBracket)
            @ X Semicolon @ X Newline)))"
| "unparse_object self X L H (IdObj s) out indent = written (out @ s)"
| "unparse_object self X L H IntObj out indent = written (out @ X KwInt)"
| "unparse_object self X L H BoolObj out indent = written (out @ X KwBool)"
| "unparse_object self X L H VoidObj out indent = written (out @ X KwVoid)"
| "unparse_object self X L H (StructDeclObj i dl) out indent =
     then_do (self i (doIndent out indent @ X KwStruct @ X Space) 0) (\<lambda>o2.
     then_do (self dl (o2 @ X LCurly @ X Newline) (indent + 1)) (\<lambda>o3.
     written (doIndent o3 indent @ X RCurly @ X Semicolon @ X Newline)))"
| "unparse_object self X L H (StructObj i) out indent =
     self i (out @ X KwStruct @ X Space) 0"
| "unparse_object self X L H (FnDeclObj t i formals body) out indent =
     then_do (self t (doIndent out indent) 0) (\<lambda>o2.
     then_do (self i (o2 @ X Space) 0) (\<lambda>o3.
     then_do (self formals (o3 @ X LParen) 0) (\<lambda>o4.
     then_do (self body (o4 @ X RParen @ X LCurly @ X Newline) (indent + 1)) (\<lambda>o5.
     written (doIndent o5 indent @ X RCurly @ X Newline)))))"
| "unparse_object self X L H (FormalDeclObj t i) out indent =
     then_do (self t out 0) (\<lambda>o1. self i (o1 @ X Space) 0)"
| "unparse_object self X L H (FormalsListObj ps) out indent =
     sequence self (X Comma) ps out indent"
| "unparse_object self X L H (FnBodyObj dl sl) out indent =
     then_do (self dl out indent) (\<lambda>o1. self sl o1 indent)"
| "unparse_object self X L H (StmtListObj ps) out indent = sequence self [] ps out indent"
| "unparse_object self X L H (AssignStmtObj a) out indent =
     (case deref H a of
        Inr (AssignObj lhs rhs) \<Rightarrow>
          then_do (bare_assign self X lhs rhs (doIndent out indent)) (\<lambda>o1.
          written (o1 @ X Semicolon @ X Newline))
      | Inr other \<Rightarrow> Some (Inl InvalidPointer)
      | Inl f \<Rightarrow> Some (Inl f))"
| "unparse_object self X L H (AssignObj lhs rhs) out indent =
     then_do (bare_assign self X lhs rhs (out @ X LParen)) (\<lambda>o1.
     written (o1 @ X RParen))"
| "unparse_object self X L H (DotAccessObj e i) out indent =
     then_do (self e out 0) (\<lambda>o1. self i (o1 @ X OpDot) 0)"
| "unparse_object self X L H (IntLitObj q) out indent =
     (case deref (intLitTokens L) q of
        Inl f \<Rightarrow> Some (Inl f) | Inr v \<Rightarrow> written (out @ show_cint v))"
| "unparse_object self X L H (StrLitObj q) out indent =
     (case deref (strLitTokens L) q of
        Inl f \<Rightarrow> Some (Inl f) | Inr s \<Rightarrow> written (out @ s))"
| "unparse_object self X L H TrueObj out indent = written (out @ X KwTrue)"

text \<open>
  The virtual call \<^verbatim>\<open>p->unparse(out, indent)\<close> with at most \<open>n\<close> nested calls:
  it dereferences the pointer and runs the method of the object found there.
\<close>

primrec unparse_at ::
  "nat \<Rightarrow> lexemes \<Rightarrow> lexer_heap \<Rightarrow> object heap \<Rightarrow> ptr \<Rightarrow> ostream \<Rightarrow> cint \<Rightarrow> outcome"
where
  "unparse_at 0 X L H p out indent = None"
| "unparse_at (Suc n) X L H p out indent =
     (case deref H p of
        Inl f \<Rightarrow> Some (Inl f)
      | Inr obj \<Rightarrow> unparse_object (unparse_at n X L H) X L H obj out indent)"

text \<open>
  The object at a pointer represents a tree: the pointer is live, the object is of the
  class of the tree's root with the same payload, and its child pointers represent the
  subtrees.  This is the well-formed object graph of the spec: no null child, every
  child constructed, and finitely many objects below the root.
\<close>

fun repr_IdNode :: "object heap \<Rightarrow> ptr \<Rightarrow> IdNode \<Rightarrow> bool" where
  "repr_IdNode H p (IdNode s) = (deref H p = Inr (IdObj s))"

fun repr_TypeNode :: "object heap \<Rightarrow> ptr \<Rightarrow> TypeNode \<Rightarrow> bool" where
  "repr_TypeNode H p IntNode = (deref H p = Inr IntObj)"
| "repr_TypeNode H p BoolNode = (deref H p = Inr BoolObj)"
| "repr_TypeNode H p VoidNode = (deref H p = Inr VoidObj)"
| "repr_TypeNode H p (StructNode i) =
     (case deref H p of Inr (StructObj q) \<Rightarrow> repr_IdNode H q i | _ \<Rightarrow> False)"

fun repr_ExpNode :: "object heap \<Rightarrow> ptr \<Rightarrow> ExpNode \<Rightarrow> bool"
  and repr_AssignNode :: "object heap \<Rightarrow> ptr \<Rightarrow> AssignNode \<Rightarrow> bool"
where
  "repr_ExpNode H p (IntLitNode q) = (deref H p = Inr (IntLitObj q))"
| "repr_ExpNode H p (StrLitNode q) = (deref H p = Inr (StrLitObj q))"
| "repr_ExpNode H p TrueNode = (deref H p = Inr TrueObj)"
| "repr_ExpNode H p (IdExp i) = repr_IdNode H p i"
| "repr_ExpNode H p (DotAccessNode e i) =
     (case deref H p of
        Inr (DotAccessObj pe pi) \<Rightarrow> repr_ExpNode H pe e \<and> repr_IdNode H pi i
      | _ \<Rightarrow> False)"
| "repr_ExpNode H p (AssignExp a) = repr_AssignNode H p a"
| "repr_AssignNode H p (AssignNode lhs rhs) =
     (case deref H p of
        Inr (AssignObj pl pr) \<Rightarrow> repr_ExpNode H pl lhs \<and> repr_ExpNode H pr rhs
      | _ \<Rightarrow> False)"

fun repr_FormalDeclNode :: "object heap \<Rightarrow> ptr \<Rightarrow> FormalDeclNode \<Rightarrow> bool" where
  "repr_FormalDeclNode H p (FormalDeclNode t i) =
     (case deref H p of
        Inr (FormalDeclObj pt pi) \<Rightarrow> repr_TypeNode H pt t \<and> repr_IdNode H pi i
      | _ \<Rightarrow> False)"

fun repr_formals :: "object heap \<Rightarrow> ptr list \<Rightarrow> FormalDeclNode list \<Rightarrow> bool" where
  "repr_formals H [] [] = True"
| "repr_formals H (p # ps) (f # fs) = (repr_FormalDeclNode H p f \<and> repr_formals H ps fs)"
| "repr_formals H ps fs = False"

fun repr_FormalsListNode :: "object heap \<Rightarrow> ptr \<Rightarrow> FormalsListNode \<Rightarrow> bool" where
  "repr_FormalsListNode H p (FormalsListNode fs) =
     (case deref H p of Inr (FormalsListObj ps) \<Rightarrow> repr_formals H ps fs | _ \<Rightarrow> False)"

fun repr_StmtNode :: "object heap \<Rightarrow> ptr \<Rightarrow> StmtNode \<Rightarrow> bool" where
  "repr_StmtNode H p (AssignStmtNode a) =
     (case deref H p of Inr (AssignStmtObj q) \<Rightarrow> repr_AssignNode H q a | _ \<Rightarrow> False)"

fun repr_stmts :: "object heap \<Rightarrow> ptr list \<Rightarrow> StmtNode list \<Rightarrow> bool" where
  "repr_stmts H [] [] = True"
| "repr_stmts H (p # ps) (s # ss) = (repr_StmtNode H p s \<and> repr_stmts H ps ss)"
| "repr_stmts H ps ss = False"

fun repr_StmtListNode :: "object heap \<Rightarrow> ptr \<Rightarrow> StmtListNode \<Rightarrow> bool" where
  "repr_StmtListNode H p (StmtListNode ss) =
     (case deref H p of Inr (StmtListObj ps) \<Rightarrow> repr_stmts H ps ss | _ \<Rightarrow> False)"

function repr_DeclNode :: "object heap \<Rightarrow> ptr \<Rightarrow> DeclNode \<Rightarrow> bool"
  and repr_decls :: "object heap \<Rightarrow> ptr list \<Rightarrow> DeclNode list \<Rightarrow> bool"
  and repr_DeclListNode :: "object heap \<Rightarrow> ptr \<Rightarrow> DeclListNode \<Rightarrow> bool"
  and repr_FnBodyNode :: "object heap \<Rightarrow> ptr \<Rightarrow> FnBodyNode \<Rightarrow> bool"
where
  "repr_DeclNode H p (VarDeclNode t i mySize) =
     (case deref H p of
        Inr (VarDeclObj pt pi n) \<Rightarrow> n = mySize \<and> repr_TypeNode H pt t \<and> repr_IdNode H pi i
      | _ \<Rightarrow> False)"
| "repr_DeclNode H p (FnDeclNode t i formals body) =
     (case deref H p of
        Inr (FnDeclObj pt pi pf pb) \<Rightarrow>
          repr_TypeNode H pt t \<and> repr_IdNode H pi i \<and> repr_FormalsListNode H pf formals
          \<and> repr_FnBodyNode H pb body
      | _ \<Rightarrow> False)"
| "repr_DeclNode H p (FormalDecl f) = repr_FormalDeclNode H p f"
| "repr_DeclNode H p (StructDeclNode i dl) =
     (case deref H p of
        Inr (StructDeclObj pi pd) \<Rightarrow> repr_IdNode H pi i \<and> repr_DeclListNode H pd dl
      | _ \<Rightarrow> False)"
| "repr_decls H [] [] = True"
| "repr_decls H (p # ps) (d # ds) = (repr_DeclNode H p d \<and> repr_decls H ps ds)"
| "repr_decls H [] (d # ds) = False"
| "repr_decls H (p # ps) [] = False"
| "repr_DeclListNode H p (DeclListNode ds) =
     (case deref H p of Inr (DeclListObj ps) \<Rightarrow> repr_decls H ps ds | _ \<Rightarrow> False)"
| "repr_FnBodyNode H p (FnBodyNode dl sl) =
     (case deref H p of
        Inr (FnBodyObj pd ps) \<Rightarrow> repr_DeclListNode H pd dl \<and> repr_StmtListNode H ps sl
      | _ \<Rightarrow> False)"
  by pat_completeness auto
termination
  by (relation "measure (case_sum
        (case_sum (\<lambda>(H, p, d). size d) (\<lambda>(H, ps, ds). size_list size ds))
        (case_sum (\<lambda>(H, p, dl). size dl) (\<lambda>(H, p, b). size b)))") auto

fun repr_ProgramNode :: "object heap \<Rightarrow> ptr \<Rightarrow> ProgramNode \<Rightarrow> bool" where
  "repr_ProgramNode H p (ProgramNode dl) =
     (case deref H p of Inr (ProgramObj pd) \<Rightarrow> repr_DeclListNode H pd dl | _ \<Rightarrow> False)"

text \<open>A property of the call bound holds from some bound on.\<close>

definition settles :: "(nat \<Rightarrow> bool) \<Rightarrow> bool" where
  "settles P \<longleftrightarrow> (\<exists>n. \<forall>m\<ge>n. P m)"

section \<open>Well-formed trees\<close>

text \<open>
  A pointer is live in a heap when it is the address of an object of that heap.  The
  absence of null children and of sharing is built into the tree datatypes; what remains
  of well-formedness is that every literal node points to a live token.
\<close>

definition live :: "'a heap \<Rightarrow> ptr \<Rightarrow> bool" where
  "live H p = (case p of Null \<Rightarrow> False | Addr a \<Rightarrow> H a \<noteq> None)"

fun wf_ExpNode :: "lexer_heap \<Rightarrow> ExpNode \<Rightarrow> bool"
  and wf_AssignNode :: "lexer_heap \<Rightarrow> AssignNode \<Rightarrow> bool"
where
  "wf_ExpNode L (IntLitNode p) = live (intLitTokens L) p"
| "wf_ExpNode L (StrLitNode p) = live (strLitTokens L) p"
| "wf_ExpNode L TrueNode = True"
| "wf_ExpNode L (IdExp i) = True"
| "wf_ExpNode L (DotAccessNode e i) = wf_ExpNode L e"
| "wf_ExpNode L (AssignExp a) = wf_AssignNode L a"
| "wf_AssignNode L (AssignNode lhs rhs) = (wf_ExpNode L lhs \<and> wf_ExpNode L rhs)"

fun wf_StmtNode :: "lexer_heap \<Rightarrow> StmtNode \<Rightarrow> bool" where
  "wf_StmtNode L (AssignStmtNode a) = wf_AssignNode L a"

fun wf_stmts :: "lexer_heap \<Rightarrow> StmtNode list \<Rightarrow> bool" where
  "wf_stmts L [] = True"
| "wf_stmts L (s # ss) = (wf_StmtNode L s \<and> wf_stmts L ss)"

fun wf_DeclNode :: "lexer_heap \<Rightarrow> DeclNode \<Rightarrow> bool"
  and wf_decls :: "lexer_heap \<Rightarrow> DeclNode list \<Rightarrow> bool"
  and wf_DeclListNode :: "lexer_heap \<Rightarrow> DeclListNode \<Rightarrow> bool"
  and wf_FnBodyNode :: "lexer_heap \<Rightarrow> FnBodyNode \<Rightarrow> bool"
where
  "wf_DeclNode L (VarDeclNode t i mySize) = True"
| "wf_DeclNode L (FnDeclNode t i formals body) = wf_FnBodyNode L body"
| "wf_DeclNode L (FormalDecl f) = True"
| "wf_DeclNode L (StructDeclNode i ds) = wf_DeclListNode L ds"
| "wf_decls L [] = True"
| "wf_decls L (d # ds) = (wf_DeclNode L d \<and> wf_decls L ds)"
| "wf_DeclListNode L (DeclListNode ds) = wf_decls L ds"
| "wf_FnBodyNode L (FnBodyNode ds (StmtListNode ss)) = (wf_DeclListNode L ds \<and> wf_stmts L ss)"

fun wf_ProgramNode :: "lexer_heap \<Rightarrow> ProgramNode \<Rightarrow> bool" where
  "wf_ProgramNode L (ProgramNode ds) = wf_DeclListNode L ds"

text \<open>
  A rendering step is uniform when what it does is the same for every stream it is
  given: it faults with one fault, or it appends one text.
\<close>

definition uniform :: "(ostream \<Rightarrow> fault + ostream) \<Rightarrow> bool" where
  "uniform g \<longleftrightarrow> (\<exists>f. \<forall>out. g out = Inl f) \<or> (\<exists>w. \<forall>out. g out = Inr (out @ w))"

section \<open>Lexer states that agree on a tree\<close>






section \<open>Example inputs\<close>

text \<open>
  Modelled from the spec: one choice of token spellings, C-like, with one space as
  separator and a line feed as newline.
\<close>

fun lilc :: lexemes where
  "lilc KwInt = ''int''"
| "lilc KwBool = ''bool''"
| "lilc KwVoid = ''void''"
| "lilc KwStruct = ''struct''"
| "lilc KwTrue = ''true''"
| "lilc OpAssign = '' = ''"
| "lilc OpDot = ''.''"
| "lilc Comma = '', ''"
| "lilc Space = '' ''"
| "lilc LParen = ''(''"
| "lilc RParen = '')''"
| "lilc LCurly = '' {''"
| "lilc RCurly = ''}''"
| "lilc LBracket = ''[''"
| "lilc RBracket = '']''"
| "lilc Semicolon = '';''"
| "lilc Newline = [CHR 0x0A]"

text \<open>
  A lexer state with one identifier token \<^verbatim>\<open>x\<close> and one integer-literal token of
  value \<open>v\<close>, each at address 0 of its heap.
\<close>

definition lexer_int :: "cint \<Rightarrow> lexer_heap" where
  "lexer_int v =
     \<lparr> idTokens = Map.empty(0 \<mapsto> ''x''), intLitTokens = Map.empty(0 \<mapsto> v),
       strLitTokens = Map.empty \<rparr>"


text \<open>The working lists of a parser: one list object per heap.\<close>

definition decl_lists :: "DeclNode list heap" where
  "decl_lists = Map.empty(3 \<mapsto> [VarDeclNode IntNode (IdNode ''a'') NOT_STRUCT])"

definition formal_lists :: "FormalDeclNode list heap" where
  "formal_lists = Map.empty(4 \<mapsto> [FormalDeclNode IntNode (IdNode ''n'')])"

definition stmt_lists :: "StmtNode list heap" where
  "stmt_lists = Map.empty(5 \<mapsto> [])"

text \<open>A parser's statement list that already holds one statement.\<close>

definition busy_stmt_lists :: "StmtNode list heap" where
  "busy_stmt_lists =
     Map.empty(6 \<mapsto> [AssignStmtNode (AssignNode (IdExp (IdNode ''a'')) TrueNode)])"

text \<open>A variable declaration nested two structs deep.\<close>

definition nested_structs :: ProgramNode where
  "nested_structs = ProgramNode (DeclListNode
     [StructDeclNode (IdNode ''P'') (DeclListNode
        [StructDeclNode (IdNode ''Q'') (DeclListNode
           [VarDeclNode IntNode (IdNode ''x'') NOT_STRUCT])])])"


text \<open>
  An object heap as a parser leaves it for a function \<^verbatim>\<open>main\<close> with one variable and
  one assignment, the program object at address 15; the objects at 16 to 18 form a cycle.
\<close>

definition example_objects :: "object heap" where
  "example_objects = map_of
     [(0, IntObj), (1, IdObj ''a''), (2, VarDeclObj (Addr 0) (Addr 1) NOT_STRUCT),
      (3, DeclListObj [Addr 2]), (4, IdObj ''a''), (5, IntLitObj (Addr 0)),
      (6, AssignObj (Addr 4) (Addr 5)), (7, AssignStmtObj (Addr 6)),
      (8, StmtListObj [Addr 7]), (9, FnBodyObj (Addr 3) (Addr 8)), (10, VoidObj),
      (11, IdObj ''main''), (12, FormalsListObj []),
      (13, FnDeclObj (Addr 10) (Addr 11) (Addr 12) (Addr 9)),
      (14, DeclListObj [Addr 13]), (15, ProgramObj (Addr 14)),
      (16, ProgramObj (Addr 17)), (17, DeclListObj [Addr 18]),
      (18, StructDeclObj (Addr 1) (Addr 17))]"

definition example_tree :: ProgramNode where
  "example_tree = ProgramNode (DeclListNode
     [FnDeclNode VoidNode (IdNode ''main'') (FormalsListNode [])
        (FnBodyNode
           (DeclListNode [VarDeclNode IntNode (IdNode ''a'') NOT_STRUCT])
           (StmtListNode
              [AssignStmtNode (AssignNode (IdExp (IdNode ''a'')) (IntLitNode (Addr 0)))]))])"

section \<open>Properties of the indentation helper\<close>

lemma sint_succ_of_less:
  fixes k indent :: cint
  assumes "k <s indent"
  shows "sint (k + 1) = sint k + 1"
proof -
  have lt: "sint k < sint indent" using assms by (simp add: word_sless_alt)
  have ub: "sint indent < 2 ^ 31" using sint_lt [of indent] by simp
  have lb: "- (2 ^ 31) \<le> sint k" using sint_ge [of k] by simp
  have "sint (k + 1) = signed_take_bit 31 (sint k + 1)"
    by (simp add: sint_word_ariths)
  also have "\<dots> = sint k + 1"
    using lt ub lb by (intro signed_take_bit_int_eq_self) auto
  finally show ?thesis .
qed

lemma doIndent_loop_done:
  "\<not> k <s indent \<Longrightarrow> doIndent_loop out k indent = out"
  by (subst doIndent_loop.simps) simp

lemma doIndent_loop_eq:
  "sint k \<le> sint indent \<Longrightarrow>
   doIndent_loop out k indent = out @ replicate (nat (sint indent - sint k)) CHR '' ''"
proof (induction out k indent rule: doIndent_loop.induct)
  case (1 out k indent)
  show ?case
  proof (cases "k <s indent")
    case True
    then have s: "sint (k + 1) = sint k + 1" by (rule sint_succ_of_less)
    from True have lt: "sint k < sint indent" by (simp add: word_sless_alt)
    have "doIndent_loop out k indent = doIndent_loop (out @ '' '') (k + 1) indent"
      using True by (subst doIndent_loop.simps) simp
    also have "\<dots> = (out @ '' '') @ replicate (nat (sint indent - sint (k + 1))) CHR '' ''"
      using "1.IH" [OF True] lt s by simp
    also have "\<dots> = out @ replicate (Suc (nat (sint indent - sint (k + 1)))) CHR '' ''"
      by simp
    also have "Suc (nat (sint indent - sint (k + 1))) = nat (sint indent - sint k)"
      using lt s by simp
    finally show ?thesis .
  next
    case False
    with "1.prems" have "sint indent = sint k" by (simp add: word_sless_alt)
    moreover have "doIndent_loop out k indent = out"
      using False by (rule doIndent_loop_done)
    ultimately show ?thesis by simp
  qed
qed

lemma doIndent_spaces:
  "doIndent out indent = out @ replicate (nat (sint indent)) CHR '' ''"
proof (cases "0 <s indent")
  case True
  then have "sint (0 :: cint) \<le> sint indent" by (simp add: word_sless_alt)
  then show ?thesis
    unfolding doIndent_def using doIndent_loop_eq [of 0 indent out] by simp
next
  case False
  then have "sint indent \<le> 0" by (simp add: word_sless_alt)
  moreover have "doIndent out indent = out"
    unfolding doIndent_def using False by (rule doIndent_loop_done)
  ultimately show ?thesis by simp
qed

text \<open>
  C2.  For every non-negative indentation level \<open>indent\<close>, \<open>doIndent out indent\<close>
  appends to the stream exactly \<open>indent\<close> copies of the indentation unit, and the unit is
  the single character space: the text written is \<open>indent\<close> spaces and nothing else, so
  whatever a node writes next is preceded by exactly that many spaces.
\<close>

theorem doIndent_writes_n_spaces:
  "0 \<le>s indent \<Longrightarrow>
     doIndent out indent = out @ replicate (nat (sint indent)) CHR '' '' \<and>
     length (doIndent out indent) = length out + nat (sint indent) \<and>
     int (nat (sint indent)) = sint indent"
  by (simp add: doIndent_spaces word_sle_eq)

theorem doIndent_writes_n_spaces_witness:
  "(0 :: cint) \<le>s 3 \<and> doIndent ''int'' 3 = ''int   ''"
proof -
  have h: "(0 :: cint) \<le>s 3" by (simp add: word_sle_eq)
  show ?thesis using h doIndent_writes_n_spaces [OF h, of "''int''"]
    by (simp add: numeral_3_eq_3)
qed

text \<open>
  C9, as stated, fails in its conclusion about rendering.  Rendered from the starting
  level -1, a variable declaration nested two structs deep is at level 1 and is written
  with one space of indentation: the output is not unindented.
\<close>

theorem unparse_negative_level_indents_nested:
  "unparse_ProgramNode lilc (lexer_int 1) nested_structs [] (- 1) =
     Inr (''struct P {'' @ [CHR 0x0A] @ ''struct Q {'' @ [CHR 0x0A] @ '' int x;'' @ [CHR 0x0A]
          @ ''};'' @ [CHR 0x0A] @ ''};'' @ [CHR 0x0A])"
  by (simp add: nested_structs_def doIndent_spaces and_then_def)

text \<open>
  C9, amended.  \<open>doIndent\<close> is total over every 32-bit indentation value (the loop
  terminates for each of them, and the text it leaves is the stream followed by
  \<open>max 0 indent\<close> spaces), and for every \<open>indent \<le> 0\<close> the loop body never runs: the
  stream is returned as it was, so \<open>doIndent\<close> cannot fail at a negative level and
  writes no indentation there.
\<close>

theorem doIndent_nonpositive_writes_nothing:
  "doIndent out indent = out @ replicate (nat (sint indent)) CHR '' '' \<and>
   (indent \<le>s 0 \<longrightarrow> doIndent out indent = out)"
  by (simp add: doIndent_spaces word_sle_eq)

theorem doIndent_nonpositive_writes_nothing_witness:
  "(- 3 :: cint) \<le>s 0 \<and> doIndent ''x'' (- 3) = ''x'' \<and> doIndent ''x'' 0 = ''x''"
proof -
  have h: "(- 3 :: cint) \<le>s 0" by (simp add: word_sle_eq)
  have z: "(0 :: cint) \<le>s 0" by simp
  show ?thesis
    using h z doIndent_nonpositive_writes_nothing [of "''x''" "- 3"]
      doIndent_nonpositive_writes_nothing [of "''x''" 0]
    by simp
qed

section \<open>Rendering is uniform in the stream\<close>

lemma uniformI_fault: "(\<And>out. g out = Inl f) \<Longrightarrow> uniform g"
  unfolding uniform_def by blast

lemma uniformI_text: "(\<And>out. g out = Inr (out @ w)) \<Longrightarrow> uniform g"
  unfolding uniform_def by blast

lemma uniform_and_then:
  assumes g: "uniform g" and h: "uniform h"
  shows "uniform (\<lambda>out. and_then (g out) h)"
proof -
  from g consider (bad) f where "\<And>out. g out = Inl f"
    | (good) w where "\<And>out. g out = Inr (out @ w)"
    unfolding uniform_def by blast
  then show ?thesis
  proof cases
    case bad
    then show ?thesis by (intro uniformI_fault [of _ f]) (simp add: and_then_def)
  next
    case good
    from h consider (hfault) f where "\<And>out. h out = Inl f"
      | (htext) v where "\<And>out. h out = Inr (out @ v)"
      unfolding uniform_def by blast
    then show ?thesis
    proof cases
      case hfault
      then show ?thesis using good
        by (intro uniformI_fault [of _ f]) (simp add: and_then_def)
    next
      case htext
      then show ?thesis using good
        by (intro uniformI_text [of _ "w @ v"]) (simp add: and_then_def)
    qed
  qed
qed

lemma uniform_after:
  assumes "uniform g"
  shows "uniform (\<lambda>out. g (out @ s))"
proof -
  from assms consider (bad) f where "\<And>out. g out = Inl f"
    | (good) w where "\<And>out. g out = Inr (out @ w)"
    unfolding uniform_def by blast
  then show ?thesis
  proof cases
    case bad
    then show ?thesis by (intro uniformI_fault [of _ f]) simp
  next
    case good
    then show ?thesis by (intro uniformI_text [of _ "s @ w"]) simp
  qed
qed

lemma uniform_write: "uniform (\<lambda>out. Inr (out @ s))"
  by (rule uniformI_text [of _ s]) simp

lemma uniform_skip: "uniform (\<lambda>out. Inr out)"
  by (rule uniformI_text [of _ "[]"]) simp

lemma unparse_IdNode_text: "unparse_IdNode i out indent = out @ myStrVal i"
  by (cases i) simp

lemma unparse_TypeNode_text:
  "unparse_TypeNode X t out indent = out @ unparse_TypeNode X t [] 0"
  by (cases t) (simp_all add: unparse_IdNode_text)

lemma unparse_FormalDeclNode_text:
  "unparse_FormalDeclNode X f out indent = out @ unparse_FormalDeclNode X f [] 0"
  by (cases f) (simp add: unparse_IdNode_text unparse_TypeNode_text [of X _ out])

lemma unparse_formals_text:
  "unparse_formals X fs out indent = out @ unparse_formals X fs [] indent"
proof (induction fs arbitrary: out rule: induct_list012)
  case 1
  show ?case by simp
next
  case (2 f)
  show ?case using unparse_FormalDeclNode_text [of X f out indent]
      unparse_FormalDeclNode_text [of X f "[]" indent] by simp
next
  case (3 f g fs)
  let ?h = "unparse_FormalDeclNode X f [] 0 @ X Comma"
  have a: "unparse_formals X (g # fs) (out @ ?h) indent = (out @ ?h) @ unparse_formals X (g # fs) [] indent"
    by (rule "3.IH"(2))
  have b: "unparse_formals X (g # fs) ?h indent = ?h @ unparse_formals X (g # fs) [] indent"
    by (rule "3.IH"(2))
  have "unparse_formals X (f # g # fs) out indent = unparse_formals X (g # fs) (out @ ?h) indent"
    using unparse_FormalDeclNode_text [of X f out indent] by simp
  moreover have "unparse_formals X (f # g # fs) [] indent = unparse_formals X (g # fs) ?h indent"
    using unparse_FormalDeclNode_text [of X f "[]" indent] by simp
  ultimately show ?case using a b by simp
qed

lemma unparse_FormalsListNode_text:
  "unparse_FormalsListNode X fl out indent = out @ unparse_FormalsListNode X fl [] indent"
  by (cases fl) (simp add: unparse_formals_text [of X _ out])

lemma doIndent_text: "doIndent out indent = out @ doIndent [] indent"
  by (simp add: doIndent_spaces)

lemma uniform_ExpNode_AssignNode:
  "uniform (\<lambda>out. unparse_ExpNode X L e out indent)"
  "uniform (\<lambda>out. unparse_AssignNode X L a out indent)"
proof (induction e and a arbitrary: indent and indent)
  case (IntLitNode p)
  show ?case
  proof (cases "deref (intLitTokens L) p")
    case (Inl f)
    then show ?thesis by (intro uniformI_fault [of _ f]) simp
  next
    case (Inr v)
    then show ?thesis by (intro uniformI_text [of _ "show_cint v"]) simp
  qed
next
  case (StrLitNode p)
  show ?case
  proof (cases "deref (strLitTokens L) p")
    case (Inl f)
    then show ?thesis by (intro uniformI_fault [of _ f]) simp
  next
    case (Inr s)
    then show ?thesis by (intro uniformI_text [of _ s]) simp
  qed
next
  case TrueNode
  show ?case by (simp add: uniform_write)
next
  case (IdExp i)
  show ?case by (simp add: unparse_IdNode_text uniform_write)
next
  case (DotAccessNode e i)
  have "uniform (\<lambda>out. and_then (unparse_ExpNode X L e out 0)
          (\<lambda>o1. Inr (o1 @ (X OpDot @ myStrVal i))))"
    by (intro uniform_and_then DotAccessNode.IH uniform_write)
  then show ?case by (simp add: unparse_IdNode_text)
next
  case (AssignExp a)
  have "uniform (\<lambda>out. and_then (unparse_AssignNode X L a (out @ X LParen) 0)
          (\<lambda>o1. Inr (o1 @ X RParen)))"
    by (intro uniform_and_then uniform_after [where g = "\<lambda>out. unparse_AssignNode X L a out 0"]
          AssignExp.IH uniform_write)
  then show ?case by simp
next
  case (AssignNode lhs rhs)
  have "uniform (\<lambda>out. and_then (unparse_ExpNode X L lhs out 0)
          (\<lambda>o1. unparse_ExpNode X L rhs (o1 @ X OpAssign) 0))"
    by (intro uniform_and_then uniform_after [where g = "\<lambda>out. unparse_ExpNode X L rhs out 0"]
          AssignNode.IH)
  then show ?case by simp
qed

lemma uniform_StmtNode: "uniform (\<lambda>out. unparse_StmtNode X L s out indent)"
proof (cases s)
  case (AssignStmtNode a)
  have "uniform (\<lambda>out. and_then
          (unparse_AssignNode X L a (out @ replicate (nat (sint indent)) CHR '' '') 0)
          (\<lambda>o1. Inr (o1 @ (X Semicolon @ X Newline))))"
    by (intro uniform_and_then uniform_write
          uniform_after [where g = "\<lambda>out. unparse_AssignNode X L a out 0"]
          uniform_ExpNode_AssignNode)
  then show ?thesis using AssignStmtNode by (simp add: doIndent_spaces)
qed

lemma uniform_stmts: "uniform (\<lambda>out. unparse_stmts X L ss out indent)"
proof (induction ss)
  case Nil
  show ?case by (simp add: uniform_skip)
next
  case (Cons s ss)
  have "uniform (\<lambda>out. and_then (unparse_StmtNode X L s out indent)
          (\<lambda>o1. unparse_stmts X L ss o1 indent))"
    by (intro uniform_and_then uniform_StmtNode Cons.IH)
  then show ?case by simp
qed

lemma uniform_StmtListNode: "uniform (\<lambda>out. unparse_StmtListNode X L sl out indent)"
  by (cases sl) (simp add: uniform_stmts)

lemma uniform_exps: "uniform (\<lambda>out. unparse_exps X L es out indent)"
proof (induction es rule: induct_list012)
  case 1
  show ?case by (simp add: uniform_skip)
next
  case (2 e)
  show ?case by (simp add: uniform_ExpNode_AssignNode)
next
  case (3 e e' es)
  have "uniform (\<lambda>out. and_then (unparse_ExpNode X L e out indent)
          (\<lambda>o1. unparse_exps X L (e' # es) (o1 @ X Comma) indent))"
    by (intro uniform_and_then uniform_ExpNode_AssignNode
          uniform_after [where g = "\<lambda>out. unparse_exps X L (e' # es) out indent"] "3.IH")
  then show ?case by simp
qed

lemma uniform_ExpListNode: "uniform (\<lambda>out. unparse_ExpListNode X L el out indent)"
  by (cases el) (simp add: uniform_exps)

lemma uniform_decls_of_each:
  assumes "\<And>d indent. d \<in> set ds \<Longrightarrow> uniform (\<lambda>out. unparse_DeclNode X L d out indent)"
  shows "uniform (\<lambda>out. unparse_decls X L ds out indent)"
  using assms
proof (induction ds)
  case Nil
  show ?case by (simp add: uniform_skip)
next
  case (Cons d ds)
  have "uniform (\<lambda>out. and_then (unparse_DeclNode X L d out indent)
          (\<lambda>o1. unparse_decls X L ds o1 indent))"
    by (intro uniform_and_then Cons.IH Cons.prems) simp_all
  then show ?case by simp
qed

lemma uniform_DeclNode_DeclListNode_FnBodyNode:
  "uniform (\<lambda>out. unparse_DeclNode X L d out indent)"
  "uniform (\<lambda>out. unparse_DeclListNode X L dl out indent)"
  "uniform (\<lambda>out. unparse_FnBodyNode X L b out indent)"
proof (induction d and dl and b arbitrary: indent and indent and indent)
  case (VarDeclNode t i mySize)
  let ?pre = "replicate (nat (sint indent)) CHR '' '' @ unparse_TypeNode X t [] 0 @ X Space @ myStrVal i"
  show ?case
  proof (cases "mySize = NOT_STRUCT")
    case True
    then show ?thesis
      by (intro uniformI_text [of _ "?pre @ X Semicolon @ X Newline"])
         (simp add: doIndent_spaces unparse_IdNode_text unparse_TypeNode_text [of X t "_ @ _"])
  next
    case False
    then show ?thesis
      by (intro uniformI_text [of _ "?pre @ X LBracket @ show_cint mySize @ X RBracket @ X Semicolon @ X Newline"])
         (simp add: doIndent_spaces unparse_IdNode_text unparse_TypeNode_text [of X t "_ @ _"])
  qed
next
  case (FnDeclNode t i formals body)
  let ?head = "replicate (nat (sint indent)) CHR '' '' @ unparse_TypeNode X t [] 0 @ X Space
      @ myStrVal i @ X LParen @ unparse_FormalsListNode X formals [] 0
      @ X RParen @ X LCurly @ X Newline"
  let ?tail = "replicate (nat (sint indent)) CHR '' '' @ X RCurly @ X Newline"
  have "uniform (\<lambda>out. and_then (unparse_FnBodyNode X L body (out @ ?head) (indent + 1))
          (\<lambda>o5. Inr (o5 @ ?tail)))"
    by (intro uniform_and_then uniform_write FnDeclNode.IH
          uniform_after [where g = "\<lambda>out. unparse_FnBodyNode X L body out (indent + 1)"])
  then show ?case
    by (simp add: doIndent_spaces unparse_IdNode_text unparse_TypeNode_text [of X t "_ @ _"]
          unparse_FormalsListNode_text [of X formals "_ @ _"])
next
  case (FormalDecl f)
  show ?case
    by (intro uniformI_text [of _ "unparse_FormalDeclNode X f [] 0"])
       (simp, rule unparse_FormalDeclNode_text)
next
  case (StructDeclNode i ds)
  let ?head = "replicate (nat (sint indent)) CHR '' '' @ X KwStruct @ X Space @ myStrVal i
      @ X LCurly @ X Newline"
  let ?tail = "replicate (nat (sint indent)) CHR '' '' @ X RCurly @ X Semicolon @ X Newline"
  have "uniform (\<lambda>out. and_then (unparse_DeclListNode X L ds (out @ ?head) (indent + 1))
          (\<lambda>o3. Inr (o3 @ ?tail)))"
    by (intro uniform_and_then uniform_write StructDeclNode.IH
          uniform_after [where g = "\<lambda>out. unparse_DeclListNode X L ds out (indent + 1)"])
  then show ?case
    by (simp add: doIndent_spaces unparse_IdNode_text)
next
  case (DeclListNode ds)
  then show ?case by (simp add: uniform_decls_of_each)
next
  case (FnBodyNode ds ss)
  have "uniform (\<lambda>out. and_then (unparse_DeclListNode X L ds out indent)
          (\<lambda>o1. unparse_StmtListNode X L ss o1 indent))"
    by (intro uniform_and_then FnBodyNode.IH uniform_StmtListNode)
  then show ?case by simp
qed

lemma uniform_ProgramNode: "uniform (\<lambda>out. unparse_ProgramNode X L p out indent)"
  by (cases p) (simp add: uniform_DeclNode_DeclListNode_FnBodyNode)

section \<open>Rendering a well-formed tree does not fault\<close>

lemma deref_live: "live H p \<Longrightarrow> \<exists>v. deref H p = Inr v"
  by (cases p) (auto simp: live_def deref_def)

lemma and_then_fault:
  "and_then r h = Inl f \<longleftrightarrow> r = Inl f \<or> (\<exists>o1. r = Inr o1 \<and> h o1 = Inl f)"
  by (cases r) (simp_all add: and_then_def)

lemma nofault_ExpNode_AssignNode:
  "wf_ExpNode L e \<Longrightarrow> unparse_ExpNode X L e out indent \<noteq> Inl f"
  "wf_AssignNode L a \<Longrightarrow> unparse_AssignNode X L a out indent \<noteq> Inl f"
proof (induction e and a arbitrary: out indent and out indent)
  case (IntLitNode p)
  then show ?case using deref_live [of "intLitTokens L" p] by auto
next
  case (StrLitNode p)
  then show ?case using deref_live [of "strLitTokens L" p] by auto
qed (auto simp: and_then_fault)

lemma nofault_StmtNode:
  "wf_StmtNode L s \<Longrightarrow> unparse_StmtNode X L s out indent \<noteq> Inl f"
  by (cases s) (auto simp: and_then_fault nofault_ExpNode_AssignNode)

lemma nofault_stmts:
  "wf_stmts L ss \<Longrightarrow> unparse_stmts X L ss out indent \<noteq> Inl f"
  by (induction ss arbitrary: out) (auto simp: and_then_fault nofault_StmtNode)

lemma nofault_decls_of_each:
  assumes "\<And>d out indent. d \<in> set ds \<Longrightarrow> wf_DeclNode L d \<Longrightarrow>
             unparse_DeclNode X L d out indent \<noteq> Inl f"
    and "wf_decls L ds"
  shows "unparse_decls X L ds out indent \<noteq> Inl f"
  using assms by (induction ds arbitrary: out) (auto simp: and_then_fault)

lemma nofault_DeclNode_DeclListNode_FnBodyNode:
  "wf_DeclNode L d \<Longrightarrow> unparse_DeclNode X L d out indent \<noteq> Inl f"
  "wf_DeclListNode L dl \<Longrightarrow> unparse_DeclListNode X L dl out indent \<noteq> Inl f"
  "wf_FnBodyNode L b \<Longrightarrow> unparse_FnBodyNode X L b out indent \<noteq> Inl f"
proof (induction d and dl and b arbitrary: out indent and out indent and out indent)
  case (DeclListNode ds)
  then show ?case using nofault_decls_of_each [of ds L X f] by simp
next
  case (FnBodyNode ds sl)
  then show ?case by (cases sl) (auto simp: and_then_fault nofault_stmts)
qed (auto simp: and_then_fault Let_def)

lemma nofault_ProgramNode:
  "wf_ProgramNode L p \<Longrightarrow> unparse_ProgramNode X L p out indent \<noteq> Inl f"
  by (cases p) (simp add: nofault_DeclNode_DeclListNode_FnBodyNode)

section \<open>Rendering reads only the tokens of the tree\<close>







section \<open>Rendering an object graph that represents a tree\<close>

lemma settles_conj: "settles P \<Longrightarrow> settles Q \<Longrightarrow> settles (\<lambda>m. P m \<and> Q m)"
proof -
  assume "settles P" and "settles Q"
  then obtain a b where a: "\<forall>m\<ge>a. P m" and b: "\<forall>m\<ge>b. Q m"
    unfolding settles_def by blast
  then have "\<forall>m\<ge>max a b. P m \<and> Q m" by simp
  then show ?thesis unfolding settles_def by blast
qed

lemma settles_mono: "settles P \<Longrightarrow> (\<And>m. P m \<Longrightarrow> Q m) \<Longrightarrow> settles Q"
  unfolding settles_def by blast

lemma settles_const: "c \<Longrightarrow> settles (\<lambda>m. c)"
  unfolding settles_def by blast

lemma settles_Suc:
  assumes "settles P" and "\<And>m. P m \<Longrightarrow> Q (Suc m)"
  shows "settles Q"
proof -
  from assms(1) obtain n where n: "\<forall>m\<ge>n. P m" unfolding settles_def by blast
  have "\<forall>m\<ge>Suc n. Q m"
  proof (intro allI impI)
    fix m assume "Suc n \<le> m"
    then obtain k where "m = Suc k" and "n \<le> k" by (cases m) auto
    with n assms(2) show "Q m" by simp
  qed
  then show ?thesis unfolding settles_def by blast
qed

lemma then_do_Some: "then_do (Some r) (\<lambda>o1. Some (g o1)) = Some (and_then r g)"
  by (cases r) (simp_all add: then_do_def and_then_def)

lemma then_do_Inr [simp]: "then_do (Some (Inr o1)) f = f o1"
  by (simp add: then_do_def)

lemma then_do_Inl [simp]: "then_do (Some (Inl e)) f = Some (Inl e)"
  by (simp add: then_do_def)

lemma and_then_Inr: "and_then r Inr = r"
  by (cases r) (simp_all add: and_then_def)

lemma unparse_ExpNode_level:
  "unparse_ExpNode X L e out indent = unparse_ExpNode X L e out 0"
  by (cases e) simp_all

lemma render_IdNode:
  "repr_IdNode H p i \<Longrightarrow>
   settles (\<lambda>m. \<forall>out k. unparse_at m X L H p out k = Some (Inr (out @ myStrVal i)))"
proof (cases i)
  case (IdNode s)
  assume "repr_IdNode H p i"
  with IdNode have d: "deref H p = Inr (IdObj s)" by simp
  show ?thesis
    by (rule settles_Suc [OF settles_const [OF TrueI]]) (simp add: d IdNode written_def)
qed

lemma render_TypeNode:
  "repr_TypeNode H p t \<Longrightarrow>
   settles (\<lambda>m. \<forall>out k. unparse_at m X L H p out k = Some (Inr (unparse_TypeNode X t out 0)))"
proof (cases t)
  case (StructNode i)
  assume r: "repr_TypeNode H p t"
  with StructNode obtain q where d: "deref H p = Inr (StructObj q)" and i: "repr_IdNode H q i"
    by (auto split: sum.splits object.splits)
  show ?thesis
    by (rule settles_Suc [OF render_IdNode [OF i, of X L]])
       (simp add: d StructNode unparse_IdNode_text)
qed (auto intro!: settles_Suc [OF settles_const [OF TrueI]] simp: written_def)

lemma render_ExpNode_AssignNode:
  "repr_ExpNode H p e \<Longrightarrow>
   settles (\<lambda>m. \<forall>out k. unparse_at m X L H p out k = Some (unparse_ExpNode X L e out 0))"
  "repr_AssignNode H p a \<Longrightarrow>
   \<exists>pl pr. deref H p = Inr (AssignObj pl pr) \<and>
     settles (\<lambda>m. \<forall>out. bare_assign (unparse_at m X L H) X pl pr out
                       = Some (unparse_AssignNode X L a out 0))"
proof (induction e and a arbitrary: p and p)
  case (IntLitNode q)
  then have d: "deref H p = Inr (IntLitObj q)" by simp
  show ?case
    by (rule settles_Suc [OF settles_const [OF TrueI]])
       (simp add: d written_def split: sum.splits)
next
  case (StrLitNode q)
  then have d: "deref H p = Inr (StrLitObj q)" by simp
  show ?case
    by (rule settles_Suc [OF settles_const [OF TrueI]])
       (simp add: d written_def split: sum.splits)
next
  case TrueNode
  then have d: "deref H p = Inr TrueObj" by simp
  show ?case
    by (rule settles_Suc [OF settles_const [OF TrueI]]) (simp add: d written_def)
next
  case (IdExp i)
  then have "repr_IdNode H p i" by simp
  from render_IdNode [OF this, of X L] show ?case
    by (rule settles_mono) (simp add: unparse_IdNode_text)
next
  case (DotAccessNode e i)
  then obtain pe pi where d: "deref H p = Inr (DotAccessObj pe pi)"
    and e: "repr_ExpNode H pe e" and i: "repr_IdNode H pi i"
    by (auto split: sum.splits object.splits)
  have "settles (\<lambda>m. (\<forall>out k. unparse_at m X L H pe out k = Some (unparse_ExpNode X L e out 0))
      \<and> (\<forall>out k. unparse_at m X L H pi out k = Some (Inr (out @ myStrVal i))))"
    by (intro settles_conj DotAccessNode.IH [OF e] render_IdNode [OF i])
  then show ?case
  proof (rule settles_Suc)
    fix m
    assume "(\<forall>out k. unparse_at m X L H pe out k = Some (unparse_ExpNode X L e out 0))
      \<and> (\<forall>out k. unparse_at m X L H pi out k = Some (Inr (out @ myStrVal i)))"
    then show "\<forall>out k. unparse_at (Suc m) X L H p out k
        = Some (unparse_ExpNode X L (DotAccessNode e i) out 0)"
      by (simp add: d then_do_Some unparse_IdNode_text)
  qed
next
  case (AssignExp a)
  then have "repr_AssignNode H p a" by simp
  from AssignExp.IH [OF this] obtain pl pr where d: "deref H p = Inr (AssignObj pl pr)"
    and s: "settles (\<lambda>m. \<forall>out. bare_assign (unparse_at m X L H) X pl pr out
                       = Some (unparse_AssignNode X L a out 0))"
    by blast
  from s show ?case
  proof (rule settles_Suc)
    fix m
    assume "\<forall>out. bare_assign (unparse_at m X L H) X pl pr out
                       = Some (unparse_AssignNode X L a out 0)"
    then show "\<forall>out k. unparse_at (Suc m) X L H p out k
        = Some (unparse_ExpNode X L (AssignExp a) out 0)"
      by (simp add: d then_do_Some written_def)
  qed
next
  case (AssignNode lhs rhs)
  then obtain pl pr where d: "deref H p = Inr (AssignObj pl pr)"
    and l: "repr_ExpNode H pl lhs" and r: "repr_ExpNode H pr rhs"
    by (auto split: sum.splits object.splits)
  have "settles (\<lambda>m. (\<forall>out k. unparse_at m X L H pl out k = Some (unparse_ExpNode X L lhs out 0))
      \<and> (\<forall>out k. unparse_at m X L H pr out k = Some (unparse_ExpNode X L rhs out 0)))"
    by (intro settles_conj AssignNode.IH l r)
  then have "settles (\<lambda>m. \<forall>out. bare_assign (unparse_at m X L H) X pl pr out
                       = Some (unparse_AssignNode X L (AssignNode lhs rhs) out 0))"
    by (rule settles_mono) (simp add: bare_assign_def then_do_Some)
  with d show ?case by blast
qed

lemma render_FormalDeclNode:
  assumes "repr_FormalDeclNode H p f"
  shows "settles (\<lambda>m. \<forall>out k. unparse_at m X L H p out k
                          = Some (Inr (unparse_FormalDeclNode X f out 0)))"
proof (cases f)
  case (FormalDeclNode t i)
  with assms obtain pt pi where d: "deref H p = Inr (FormalDeclObj pt pi)"
    and t: "repr_TypeNode H pt t" and i: "repr_IdNode H pi i"
    by (auto split: sum.splits object.splits)
  have "settles (\<lambda>m. (\<forall>out k. unparse_at m X L H pt out k = Some (Inr (unparse_TypeNode X t out 0)))
      \<and> (\<forall>out k. unparse_at m X L H pi out k = Some (Inr (out @ myStrVal i))))"
    by (intro settles_conj render_TypeNode [OF t] render_IdNode [OF i])
  then show ?thesis
  proof (rule settles_Suc)
    fix m
    assume "(\<forall>out k. unparse_at m X L H pt out k = Some (Inr (unparse_TypeNode X t out 0)))
      \<and> (\<forall>out k. unparse_at m X L H pi out k = Some (Inr (out @ myStrVal i)))"
    then show "\<forall>out k. unparse_at (Suc m) X L H p out k
        = Some (Inr (unparse_FormalDeclNode X f out 0))"
      by (simp add: d FormalDeclNode unparse_IdNode_text)
  qed
qed

lemma unparse_FormalDeclNode_level:
  "unparse_FormalDeclNode X f out indent = unparse_FormalDeclNode X f out 0"
  by (cases f) simp

lemma render_formals:
  "repr_formals H ps fs \<Longrightarrow>
   settles (\<lambda>m. \<forall>out k. sequence (unparse_at m X L H) (X Comma) ps out k
                      = Some (Inr (unparse_formals X fs out 0)))"
proof (induction H ps fs rule: repr_formals.induct)
  case (1 H)
  show ?case by (simp add: written_def settles_const)
next
  case (2 H p ps f fs)
  then have f: "repr_FormalDeclNode H p f" and r: "repr_formals H ps fs" by simp_all
  have s: "settles (\<lambda>m. (\<forall>out k. unparse_at m X L H p out k
                          = Some (Inr (unparse_FormalDeclNode X f out 0)))
      \<and> (\<forall>out k. sequence (unparse_at m X L H) (X Comma) ps out k
                      = Some (Inr (unparse_formals X fs out 0))))"
    by (intro settles_conj render_FormalDeclNode [OF f] "2.IH" [OF r])
  show ?case
  proof (cases ps)
    case Nil
    with r have "fs = []" by (cases fs) simp_all
    with Nil s show ?thesis
      by (elim settles_mono) simp
  next
    case (Cons q qs)
    with r obtain g gs where "fs = g # gs" by (cases fs) simp_all
    with Cons s show ?thesis
      by (elim settles_mono) simp
  qed
qed simp_all

lemma render_FormalsListNode:
  assumes "repr_FormalsListNode H p fl"
  shows "settles (\<lambda>m. \<forall>out k. unparse_at m X L H p out k
                          = Some (Inr (unparse_FormalsListNode X fl out 0)))"
proof (cases fl)
  case (FormalsListNode fs)
  with assms obtain ps where d: "deref H p = Inr (FormalsListObj ps)"
    and r: "repr_formals H ps fs"
    by (auto split: sum.splits object.splits)
  from render_formals [OF r, of X L] show ?thesis
    by (rule settles_Suc) (simp add: d FormalsListNode)
qed

lemma render_StmtNode:
  assumes "repr_StmtNode H p s"
  shows "settles (\<lambda>m. \<forall>out k. unparse_at m X L H p out k
                          = Some (unparse_StmtNode X L s out k))"
proof (cases s)
  case (AssignStmtNode a)
  with assms obtain q where d: "deref H p = Inr (AssignStmtObj q)"
    and a: "repr_AssignNode H q a"
    by (auto split: sum.splits object.splits)
  from render_ExpNode_AssignNode(2) [OF a, of X L]
  obtain pl pr where dq: "deref H q = Inr (AssignObj pl pr)"
    and st: "settles (\<lambda>m. \<forall>out. bare_assign (unparse_at m X L H) X pl pr out
                       = Some (unparse_AssignNode X L a out 0))"
    by blast
  from st show ?thesis
    by (rule settles_Suc) (simp add: d dq AssignStmtNode then_do_Some written_def)
qed

lemma sequence_no_separator:
  "sequence self [] (p # ps) out k
     = then_do (self p out k) (\<lambda>o1. sequence self [] ps o1 k)"
proof (cases ps)
  case Nil
  show ?thesis
  proof (cases "self p out k")
    case None
    then show ?thesis using Nil by (simp add: then_do_def)
  next
    case (Some r)
    then show ?thesis using Nil by (cases r) (simp_all add: written_def)
  qed
qed simp

lemma render_stmts:
  "repr_stmts H ps ss \<Longrightarrow>
   settles (\<lambda>m. \<forall>out k. sequence (unparse_at m X L H) [] ps out k
                      = Some (unparse_stmts X L ss out k))"
proof (induction H ps ss rule: repr_stmts.induct)
  case (1 H)
  show ?case by (simp add: written_def settles_const)
next
  case (2 H p ps s ss)
  then have f: "repr_StmtNode H p s" and r: "repr_stmts H ps ss" by simp_all
  have "settles (\<lambda>m. (\<forall>out k. unparse_at m X L H p out k = Some (unparse_StmtNode X L s out k))
      \<and> (\<forall>out k. sequence (unparse_at m X L H) [] ps out k
                      = Some (unparse_stmts X L ss out k)))"
    by (intro settles_conj render_StmtNode [OF f] "2.IH" [OF r])
  then show ?case
    by (rule settles_mono) (simp add: sequence_no_separator then_do_Some del: sequence.simps)
qed simp_all

lemma render_StmtListNode:
  assumes "repr_StmtListNode H p sl"
  shows "settles (\<lambda>m. \<forall>out k. unparse_at m X L H p out k
                          = Some (unparse_StmtListNode X L sl out k))"
proof (cases sl)
  case (StmtListNode ss)
  with assms obtain ps where d: "deref H p = Inr (StmtListObj ps)"
    and r: "repr_stmts H ps ss"
    by (auto split: sum.splits object.splits)
  from render_stmts [OF r, of X L] show ?thesis
    by (rule settles_Suc) (simp add: d StmtListNode)
qed

lemma then_do_written:
  "then_do (Some r) (\<lambda>o1. written (g o1)) = Some (and_then r (\<lambda>o1. Inr (g o1)))"
  by (cases r) (simp_all add: then_do_def and_then_def written_def)

lemma render_decls_of_each:
  assumes "\<And>d p. d \<in> set ds \<Longrightarrow> repr_DeclNode H p d \<Longrightarrow>
             settles (\<lambda>m. \<forall>out k. unparse_at m X L H p out k
                                = Some (unparse_DeclNode X L d out k))"
    and "repr_decls H ps ds"
  shows "settles (\<lambda>m. \<forall>out k. sequence (unparse_at m X L H) [] ps out k
                          = Some (unparse_decls X L ds out k))"
  using assms
proof (induction ds arbitrary: ps)
  case Nil
  then have "ps = []" by (cases ps) simp_all
  then show ?case by (simp add: written_def settles_const)
next
  case (Cons d ds)
  then obtain q qs where ps: "ps = q # qs" and d: "repr_DeclNode H q d"
    and r: "repr_decls H qs ds"
    by (cases ps) simp_all
  have "settles (\<lambda>m. (\<forall>out k. unparse_at m X L H q out k = Some (unparse_DeclNode X L d out k))
      \<and> (\<forall>out k. sequence (unparse_at m X L H) [] qs out k
                      = Some (unparse_decls X L ds out k)))"
    by (intro settles_conj Cons.prems(1) [OF _ d] Cons.IH [OF _ r] Cons.prems(1)) simp_all
  then show ?case unfolding ps
    by (rule settles_mono) (simp add: sequence_no_separator then_do_Some del: sequence.simps)
qed

lemma render_DeclNode_DeclListNode_FnBodyNode:
  "repr_DeclNode H p d \<Longrightarrow>
   settles (\<lambda>m. \<forall>out k. unparse_at m X L H p out k = Some (unparse_DeclNode X L d out k))"
  "repr_DeclListNode H p dl \<Longrightarrow>
   settles (\<lambda>m. \<forall>out k. unparse_at m X L H p out k = Some (unparse_DeclListNode X L dl out k))"
  "repr_FnBodyNode H p b \<Longrightarrow>
   settles (\<lambda>m. \<forall>out k. unparse_at m X L H p out k = Some (unparse_FnBodyNode X L b out k))"
proof (induction d and dl and b arbitrary: p and p and p)
  case (VarDeclNode t i mySize)
  then obtain pt pi where d: "deref H p = Inr (VarDeclObj pt pi mySize)"
    and t: "repr_TypeNode H pt t" and i: "repr_IdNode H pi i"
    by (auto split: sum.splits object.splits)
  have "settles (\<lambda>m. (\<forall>out k. unparse_at m X L H pt out k = Some (Inr (unparse_TypeNode X t out 0)))
      \<and> (\<forall>out k. unparse_at m X L H pi out k = Some (Inr (out @ myStrVal i))))"
    by (intro settles_conj render_TypeNode [OF t] render_IdNode [OF i])
  then show ?case
    by (rule settles_Suc) (simp add: d unparse_IdNode_text written_def)
next
  case (FnDeclNode t i formals body)
  then obtain pt pi pf pb where d: "deref H p = Inr (FnDeclObj pt pi pf pb)"
    and t: "repr_TypeNode H pt t" and i: "repr_IdNode H pi i"
    and f: "repr_FormalsListNode H pf formals" and b: "repr_FnBodyNode H pb body"
    by (auto split: sum.splits object.splits)
  have "settles (\<lambda>m. ((\<forall>out k. unparse_at m X L H pt out k = Some (Inr (unparse_TypeNode X t out 0)))
      \<and> (\<forall>out k. unparse_at m X L H pi out k = Some (Inr (out @ myStrVal i))))
      \<and> ((\<forall>out k. unparse_at m X L H pf out k
                     = Some (Inr (unparse_FormalsListNode X formals out 0)))
      \<and> (\<forall>out k. unparse_at m X L H pb out k = Some (unparse_FnBodyNode X L body out k))))"
    by (intro settles_conj render_TypeNode [OF t] render_IdNode [OF i]
          render_FormalsListNode [OF f] FnDeclNode.IH [OF b])
  then show ?case
    by (rule settles_Suc)
       (simp add: d unparse_IdNode_text then_do_written Let_def)
next
  case (FormalDecl f)
  then have "repr_FormalDeclNode H p f" by simp
  from render_FormalDeclNode [OF this, of X L] show ?case
    by (rule settles_mono) (cases f, simp)
next
  case (StructDeclNode i dl)
  then obtain pi pd where d: "deref H p = Inr (StructDeclObj pi pd)"
    and i: "repr_IdNode H pi i" and l: "repr_DeclListNode H pd dl"
    by (auto split: sum.splits object.splits)
  have "settles (\<lambda>m. (\<forall>out k. unparse_at m X L H pi out k = Some (Inr (out @ myStrVal i)))
      \<and> (\<forall>out k. unparse_at m X L H pd out k = Some (unparse_DeclListNode X L dl out k)))"
    by (intro settles_conj render_IdNode [OF i] StructDeclNode.IH [OF l])
  then show ?case
    by (rule settles_Suc)
       (simp add: d unparse_IdNode_text then_do_written Let_def)
next
  case (DeclListNode ds)
  then obtain ps where d: "deref H p = Inr (DeclListObj ps)" and r: "repr_decls H ps ds"
    by (auto split: sum.splits object.splits)
  have "settles (\<lambda>m. \<forall>out k. sequence (unparse_at m X L H) [] ps out k
                          = Some (unparse_decls X L ds out k))"
    by (rule render_decls_of_each [OF DeclListNode.IH r])
  then show ?case
    by (rule settles_Suc) (simp add: d)
next
  case (FnBodyNode dl sl)
  then obtain pd ps where d: "deref H p = Inr (FnBodyObj pd ps)"
    and l: "repr_DeclListNode H pd dl" and s: "repr_StmtListNode H ps sl"
    by (auto split: sum.splits object.splits)
  have "settles (\<lambda>m. (\<forall>out k. unparse_at m X L H pd out k = Some (unparse_DeclListNode X L dl out k))
      \<and> (\<forall>out k. unparse_at m X L H ps out k = Some (unparse_StmtListNode X L sl out k)))"
    by (intro settles_conj FnBodyNode.IH [OF l] render_StmtListNode [OF s])
  then show ?case
    by (rule settles_Suc) (simp add: d then_do_Some)
qed

lemma render_ProgramNode:
  assumes "repr_ProgramNode H p t"
  shows "settles (\<lambda>m. \<forall>out k. unparse_at m X L H p out k
                          = Some (unparse_ProgramNode X L t out k))"
proof (cases t)
  case (ProgramNode dl)
  with assms obtain pd where d: "deref H p = Inr (ProgramObj pd)"
    and l: "repr_DeclListNode H pd dl"
    by (auto split: sum.splits object.splits)
  from render_DeclNode_DeclListNode_FnBodyNode(2) [OF l, of X L] show ?thesis
    by (rule settles_Suc) (simp add: d ProgramNode)
qed

section \<open>Properties of rendering\<close>

lemma decimal_small: "n < 10 \<Longrightarrow> decimal n = [digit n]"
  by (subst decimal.simps) simp

text \<open>
  C1.  A variable declaration whose size field is \<open>NOT_STRUCT\<close> (the value -1) renders
  as indentation, type, separator, identifier, terminator and newline, with no size
  suffix; with any other stored size the same rendering carries the size suffix, the
  stored value written in decimal between the suffix delimiters, right after the
  identifier.
\<close>

theorem VarDeclNode_size_suffix:
  "unparse_DeclNode X L (VarDeclNode t i NOT_STRUCT) out indent =
     Inr (doIndent out indent @ unparse_TypeNode X t [] 0 @ X Space @ myStrVal i
          @ X Semicolon @ X Newline) \<and>
   (mySize \<noteq> NOT_STRUCT \<longrightarrow>
     unparse_DeclNode X L (VarDeclNode t i mySize) out indent =
     Inr (doIndent out indent @ unparse_TypeNode X t [] 0 @ X Space @ myStrVal i
          @ X LBracket @ show_cint mySize @ X RBracket @ X Semicolon @ X Newline))"
  by (simp add: unparse_IdNode_text unparse_TypeNode_text [of X t "doIndent out indent"])

theorem VarDeclNode_size_suffix_witness:
  "(7 :: cint) \<noteq> NOT_STRUCT \<and>
   unparse_DeclNode lilc (lexer_int 1) (VarDeclNode IntNode (IdNode ''y'') 7) [] 1
     = Inr ('' int y[7];'' @ [CHR 0x0A]) \<and>
   unparse_DeclNode lilc (lexer_int 1) (VarDeclNode IntNode (IdNode ''y'') NOT_STRUCT) [] 1
     = Inr ('' int y;'' @ [CHR 0x0A])"
proof -
  have h: "(7 :: cint) \<noteq> NOT_STRUCT" by (simp add: NOT_STRUCT_def)
  have d: "doIndent [] 1 = '' ''" by (simp add: doIndent_spaces)
  have s: "show_cint 7 = ''7''" by (simp add: show_cint_def decimal_small digit_def)
  show ?thesis
    using h VarDeclNode_size_suffix [of lilc "lexer_int 1" IntNode "IdNode ''y''" "[]" 1 7]
    by (simp add: d s del: unparse_DeclNode.simps)
qed

text \<open>
  C3, as stated, fails for the literal nodes.  \<open>IntLitNode\<close> keeps the pointer to the
  token (\<^verbatim>\<open>myIntLit = intLit\<close>): the node built for the token at address 0 renders
  \<^verbatim>\<open>5\<close> while the token holds 5 and \<^verbatim>\<open>7\<close> once the token holds 7.
\<close>

theorem IntLitNode_render_follows_token:
  "myIntLit (new_IntLitNode (Addr 0)) = Addr 0 \<and>
   unparse_ExpNode lilc (lexer_int 5) (new_IntLitNode (Addr 0)) [] 0 = Inr ''5'' \<and>
   unparse_ExpNode lilc (lexer_int 7) (new_IntLitNode (Addr 0)) [] 0 = Inr ''7''"
  by (simp add: new_IntLitNode_def lexer_int_def deref_def show_cint_def decimal_small
        digit_def)

text \<open>
  C3, amended.  An identifier node copies the string out of its token at construction
  (\<open>L\<close> is the lexer state then) and renders that string whatever the lexer state \<open>L'\<close>
  is at rendering.  An integer-literal or string-literal node stores the token pointer
  it was given, and its rendering is the value the token holds in \<open>L'\<close>, at rendering.
\<close>

theorem leaf_token_capture:
  "(new_IdNode L p = Inr n \<longrightarrow>
      deref (idTokens L) p = Inr (myStrVal n) \<and>
      unparse_ExpNode X L' (IdExp n) out indent = Inr (out @ myStrVal n)) \<and>
   myIntLit (new_IntLitNode q) = q \<and>
   myStringLit (new_StrLitNode q) = q \<and>
   unparse_ExpNode X L' (new_IntLitNode q) out indent =
     (case deref (intLitTokens L') q of Inl f \<Rightarrow> Inl f | Inr v \<Rightarrow> Inr (out @ show_cint v)) \<and>
   unparse_ExpNode X L' (new_StrLitNode q) out indent =
     (case deref (strLitTokens L') q of Inl f \<Rightarrow> Inl f | Inr s \<Rightarrow> Inr (out @ s))"
  by (auto simp: new_IdNode_def new_IntLitNode_def new_StrLitNode_def unparse_IdNode_text
           split: sum.splits)

theorem leaf_token_capture_witness:
  "new_IdNode (lexer_int 5) (Addr 0) = Inr (IdNode ''x'') \<and>
   unparse_ExpNode lilc (lexer_int 7) (IdExp (IdNode ''x'')) [] 0 = Inr ''x'' \<and>
   unparse_ExpNode lilc (lexer_int 7) (new_IntLitNode (Addr 0)) [] 0 = Inr ''7''"
proof -
  have h: "new_IdNode (lexer_int 5) (Addr 0) = Inr (IdNode ''x'')"
    by (simp add: new_IdNode_def lexer_int_def deref_def)
  have t: "deref (intLitTokens (lexer_int 7)) (Addr 0) = Inr 7"
    by (simp add: lexer_int_def deref_def)
  have s: "show_cint 7 = ''7''" by (simp add: show_cint_def decimal_small digit_def)
  show ?thesis
    using h leaf_token_capture [of "lexer_int 5" "Addr 0" "IdNode ''x''" lilc "lexer_int 7"
        "[]" 0 "Addr 0"]
    by (simp add: t s del: unparse_ExpNode.simps)
qed

text \<open>
  C4.  Of the 32 statement and expression kinds of the header's table, \<^verbatim>\<open>ast.hpp\<close>
  defines a class for seven, each with exactly the children the table gives; the other
  25 kinds have no class.  Accordingly every statement of the model is an assignment.
\<close>

theorem kinds_without_class_in_ast_hpp:
  "kinds_without_class =
     [''PostIncStmtNode'', ''PostDecStmtNode'', ''ReadStmtNode'', ''WriteStmtNode'',
      ''IfStmtNode'', ''IfElseStmtNode'', ''WhileStmtNode'', ''CallStmtNode'',
      ''ReturnStmtNode'', ''FalseNode'', ''CallExpNode'', ''UnaryMinusNode'', ''NotNode'',
      ''PlusNode'', ''MinusNode'', ''TimesNode'', ''DivideNode'', ''AndNode'', ''OrNode'',
      ''EqualsNode'', ''NotEqualsNode'', ''LessNode'', ''GreaterNode'', ''LessEqNode'',
      ''GreaterEqNode''] \<and>
   kinds_with_class =
     [''AssignStmtNode'', ''IntLitNode'', ''StrLitNode'', ''TrueNode'', ''IdNode'',
      ''DotAccessNode'', ''AssignNode''] \<and>
   (\<exists>a. (s :: StmtNode) = AssignStmtNode a)"
proof -
  have a: "kinds_without_class =
     [''PostIncStmtNode'', ''PostDecStmtNode'', ''ReadStmtNode'', ''WriteStmtNode'',
      ''IfStmtNode'', ''IfElseStmtNode'', ''WhileStmtNode'', ''CallStmtNode'',
      ''ReturnStmtNode'', ''FalseNode'', ''CallExpNode'', ''UnaryMinusNode'', ''NotNode'',
      ''PlusNode'', ''MinusNode'', ''TimesNode'', ''DivideNode'', ''AndNode'', ''OrNode'',
      ''EqualsNode'', ''NotEqualsNode'', ''LessNode'', ''GreaterNode'', ''LessEqNode'',
      ''GreaterEqNode'']"
    by code_simp
  have b: "kinds_with_class =
     [''AssignStmtNode'', ''IntLitNode'', ''StrLitNode'', ''TrueNode'', ''IdNode'',
      ''DotAccessNode'', ''AssignNode'']"
    by code_simp
  have c: "\<exists>a. s = AssignStmtNode a" by (cases s) simp
  from a b c show ?thesis by (intro conjI)
qed




text \<open>
  C6.  Each list constructor stores the sequence it is handed: from a pointer to the
  parser's list holding \<open>ds\<close>, construction yields the node whose member sequence is
  \<open>ds\<close> (for \<open>ExpListNode\<close>, the sequence passed by value).  The node holds that
  sequence and not the address: after a later \<^verbatim>\<open>push_back\<close> the parser's list is one
  element longer, a node constructed from it then has the longer sequence, and the node
  constructed before still has \<open>ds\<close>.
\<close>

theorem list_constructors_store_copy:
  assumes "HD a = Some ds" and "HF b = Some fs" and "HS c = Some ss"
  shows "new_DeclListNode HD (Addr a) = Inr (DeclListNode ds) \<and>
         myDecls (DeclListNode ds) = ds \<and>
         push_back HD a d a = Some (ds @ [d]) \<and>
         new_DeclListNode (push_back HD a d) (Addr a) = Inr (DeclListNode (ds @ [d])) \<and>
         new_FormalsListNode HF (Addr b) = Inr (FormalsListNode fs) \<and>
         myFormalDeclList (FormalsListNode fs) = fs \<and>
         push_back HF b f b = Some (fs @ [f]) \<and>
         new_FormalsListNode (push_back HF b f) (Addr b) = Inr (FormalsListNode (fs @ [f])) \<and>
         new_StmtListNode HS (Addr c) = Inr (StmtListNode ss) \<and>
         myStmtList (StmtListNode ss) = ss \<and>
         push_back HS c s c = Some (ss @ [s]) \<and>
         new_StmtListNode (push_back HS c s) (Addr c) = Inr (StmtListNode (ss @ [s])) \<and>
         new_ExpListNode es = ExpListNode es \<and>
         myExpList (new_ExpListNode es) = es"
  using assms
  by (simp add: new_DeclListNode_def new_FormalsListNode_def new_StmtListNode_def
        new_ExpListNode_def deref_def push_back_def)

theorem list_constructors_store_copy_witness:
  "decl_lists 3 = Some [VarDeclNode IntNode (IdNode ''a'') NOT_STRUCT] \<and>
   formal_lists 4 = Some [FormalDeclNode IntNode (IdNode ''n'')] \<and>
   busy_stmt_lists 6 = Some [AssignStmtNode (AssignNode (IdExp (IdNode ''a'')) TrueNode)] \<and>
   new_DeclListNode decl_lists (Addr 3)
     = Inr (DeclListNode [VarDeclNode IntNode (IdNode ''a'') NOT_STRUCT]) \<and>
   new_FormalsListNode formal_lists (Addr 4)
     = Inr (FormalsListNode [FormalDeclNode IntNode (IdNode ''n'')]) \<and>
   new_StmtListNode busy_stmt_lists (Addr 6)
     = Inr (StmtListNode [AssignStmtNode (AssignNode (IdExp (IdNode ''a'')) TrueNode)]) \<and>
   push_back busy_stmt_lists 6 (AssignStmtNode (AssignNode (IdExp (IdNode ''b'')) TrueNode)) 6
     = Some [AssignStmtNode (AssignNode (IdExp (IdNode ''a'')) TrueNode),
             AssignStmtNode (AssignNode (IdExp (IdNode ''b'')) TrueNode)]"
proof -
  have a: "decl_lists 3 = Some [VarDeclNode IntNode (IdNode ''a'') NOT_STRUCT]"
    by (simp add: decl_lists_def)
  have b: "formal_lists 4 = Some [FormalDeclNode IntNode (IdNode ''n'')]"
    by (simp add: formal_lists_def)
  have c: "busy_stmt_lists 6 = Some [AssignStmtNode (AssignNode (IdExp (IdNode ''a'')) TrueNode)]"
    by (simp add: busy_stmt_lists_def)
  show ?thesis
    using a b c
      list_constructors_store_copy [where HD = decl_lists and a = 3 and HF = formal_lists
        and b = 4 and HS = busy_stmt_lists and c = 6
        and s = "AssignStmtNode (AssignNode (IdExp (IdNode ''b'')) TrueNode)", OF a b c]
    by simp
qed


text \<open>
  C7.  A list node constructed from an empty sequence renders as nothing: the stream
  comes back as it was (no delimiter, no separator, no indentation), at every level,
  for the declaration, formals, statement and expression lists.
\<close>

theorem empty_lists_render_nothing:
  assumes "deref HD pd = Inr []" and "deref HF pf = Inr []" and "deref HS ps = Inr []"
  shows "(\<exists>dl. new_DeclListNode HD pd = Inr dl \<and>
               unparse_DeclListNode X L dl out indent = Inr out) \<and>
         (\<exists>fl. new_FormalsListNode HF pf = Inr fl \<and>
               unparse_FormalsListNode X fl out indent = out) \<and>
         (\<exists>sl. new_StmtListNode HS ps = Inr sl \<and>
               unparse_StmtListNode X L sl out indent = Inr out) \<and>
         unparse_ExpListNode X L (new_ExpListNode []) out indent = Inr out"
  using assms
  by (simp add: new_DeclListNode_def new_FormalsListNode_def new_StmtListNode_def
        new_ExpListNode_def)

theorem empty_lists_render_nothing_witness:
  "deref stmt_lists (Addr 5) = Inr [] \<and>
   deref (Map.empty(1 \<mapsto> ([] :: DeclNode list))) (Addr 1) = Inr [] \<and>
   (\<exists>sl. new_StmtListNode stmt_lists (Addr 5) = Inr sl \<and>
         unparse_StmtListNode lilc (lexer_int 1) sl ''int a;'' 2 = Inr ''int a;'') \<and>
   (\<exists>dl. new_DeclListNode (Map.empty(1 \<mapsto> [])) (Addr 1) = Inr dl \<and>
         unparse_DeclListNode lilc (lexer_int 1) dl ''int a;'' 2 = Inr ''int a;'')"
proof -
  have d: "deref (Map.empty(1 \<mapsto> ([] :: DeclNode list))) (Addr 1) = Inr []"
    by (simp add: deref_def)
  have f: "deref (Map.empty(2 \<mapsto> ([] :: FormalDeclNode list))) (Addr 2) = Inr []"
    by (simp add: deref_def)
  have s: "deref stmt_lists (Addr 5) = Inr []"
    by (simp add: deref_def stmt_lists_def)
  show ?thesis
    using d s empty_lists_render_nothing [OF d f s, of lilc "lexer_int 1" "''int a;''" 2]
    by blast
qed

text \<open>
  C8.  Rendering a well-formed tree never fails and always terminates.  Whenever the
  object at \<open>p\<close> represents a tree \<open>t\<close> (no null or dangling child, finitely many
  objects) whose literal nodes point to live tokens, there is a bound \<open>n\<close> on the depth
  of calls from which on \<^verbatim>\<open>p->unparse(out, indent)\<close> returns, for every stream and
  every starting level; what it returns is never a fault but the stream followed by a
  finite text \<open>w\<close>, the text that the rendering rules give for \<open>t\<close>.
\<close>

theorem unparse_terminates_on_wf_tree:
  assumes "repr_ProgramNode H p t" and "wf_ProgramNode L t"
  shows "\<exists>n w. (\<forall>m\<ge>n. unparse_at m X L H p out indent = Some (Inr (out @ w))) \<and>
               unparse_ProgramNode X L t out indent = Inr (out @ w)"
proof -
  from render_ProgramNode [OF assms(1), of X L]
  obtain n where n: "\<forall>m\<ge>n. \<forall>out k. unparse_at m X L H p out k
                          = Some (unparse_ProgramNode X L t out k)"
    unfolding settles_def by blast
  have "uniform (\<lambda>out. unparse_ProgramNode X L t out indent)"
    by (rule uniform_ProgramNode)
  then consider (bad) f where "\<And>out. unparse_ProgramNode X L t out indent = Inl f"
    | (good) w where "\<And>out. unparse_ProgramNode X L t out indent = Inr (out @ w)"
    unfolding uniform_def by blast
  then show ?thesis
  proof cases
    case bad
    then show ?thesis using nofault_ProgramNode [OF assms(2)] by blast
  next
    case good
    from n good have "\<forall>m\<ge>n. unparse_at m X L H p out indent = Some (Inr (out @ w))"
      by simp
    with good show ?thesis by blast
  qed
qed

theorem unparse_terminates_on_wf_tree_witness:
  "repr_ProgramNode example_objects (Addr 15) example_tree \<and>
   wf_ProgramNode (lexer_int 42) example_tree \<and>
   (\<exists>n w. (\<forall>m\<ge>n. unparse_at m lilc (lexer_int 42) example_objects (Addr 15) ''// '' 0
                     = Some (Inr (''// '' @ w))) \<and>
          unparse_ProgramNode lilc (lexer_int 42) example_tree ''// '' 0 = Inr (''// '' @ w)) \<and>
   unparse_at 7 lilc (lexer_int 42) example_objects (Addr 15) [] 0 =
     Some (Inr (''void main() {'' @ [CHR 0x0A] @ '' int a;'' @ [CHR 0x0A]
                @ '' a = 42;'' @ [CHR 0x0A] @ ''}'' @ [CHR 0x0A]))"
proof -
  have r: "repr_ProgramNode example_objects (Addr 15) example_tree"
    by (simp add: example_objects_def example_tree_def deref_def)
  have w: "wf_ProgramNode (lexer_int 42) example_tree"
    by (simp add: example_tree_def lexer_int_def live_def)
  have e: "unparse_at 7 lilc (lexer_int 42) example_objects (Addr 15) [] 0 =
     Some (Inr (''void main() {'' @ [CHR 0x0A] @ '' int a;'' @ [CHR 0x0A]
                @ '' a = 42;'' @ [CHR 0x0A] @ ''}'' @ [CHR 0x0A]))"
    by code_simp
  from r w unparse_terminates_on_wf_tree [OF r w, of lilc "''// ''" 0] e
  show ?thesis by (intro conjI)
qed

text \<open>
  C10.  The constructors of \<open>DeclListNode\<close>, \<open>FormalsListNode\<close> and \<open>StmtListNode\<close>
  dereference the list pointer they receive: with a null pointer the construction is a
  null dereference, and with a pointer to a live list it succeeds.  The constructor of
  \<open>ExpListNode\<close> takes the sequence itself, reads no pointer and always yields the node.
\<close>

theorem list_constructors_need_non_null:
  "new_DeclListNode HD Null = Inl NullDereference \<and>
   new_FormalsListNode HF Null = Inl NullDereference \<and>
   new_StmtListNode HS Null = Inl NullDereference \<and>
   (live HD pd \<longrightarrow> (\<exists>dl. new_DeclListNode HD pd = Inr dl)) \<and>
   (live HF pf \<longrightarrow> (\<exists>fl. new_FormalsListNode HF pf = Inr fl)) \<and>
   (live HS ps \<longrightarrow> (\<exists>sl. new_StmtListNode HS ps = Inr sl)) \<and>
   myExpList (new_ExpListNode es) = es"
  using deref_live [of HD pd] deref_live [of HF pf] deref_live [of HS ps]
  by (auto simp: new_DeclListNode_def new_FormalsListNode_def new_StmtListNode_def
        new_ExpListNode_def deref_def)

theorem list_constructors_need_non_null_witness:
  "live decl_lists (Addr 3) \<and> live formal_lists (Addr 4) \<and> live stmt_lists (Addr 5) \<and>
   (\<exists>dl. new_DeclListNode decl_lists (Addr 3) = Inr dl) \<and>
   (\<exists>fl. new_FormalsListNode formal_lists (Addr 4) = Inr fl) \<and>
   (\<exists>sl. new_StmtListNode stmt_lists (Addr 5) = Inr sl) \<and>
   new_DeclListNode decl_lists Null = Inl NullDereference"
proof -
  have a: "live decl_lists (Addr 3)" by (simp add: live_def decl_lists_def)
  have b: "live formal_lists (Addr 4)" by (simp add: live_def formal_lists_def)
  have c: "live stmt_lists (Addr 5)" by (simp add: live_def stmt_lists_def)
  show ?thesis
    using a b c
      list_constructors_need_non_null [of decl_lists formal_lists stmt_lists
        "Addr 3" "Addr 4" "Addr 5" "[]"]
    by blast
qed

end
